theory Spec2Isabelle
  imports Complex_Main "HOL-Library.Char_ord" "HOL-Library.List_Lexorder"
begin

section \<open>Data model\<close>

text \<open>
  The model object of \<^verbatim>\<open>model.py\<close> has three fields: the dictionary \<^verbatim>\<open>data\<close> from a
  column name to its values, the list \<^verbatim>\<open>headers\<close> and the integer \<^verbatim>\<open>row_count\<close>.
  A column is a list of strings (a Python list while the file is read, a NumPy array of
  strings afterwards) or a NumPy array of floats. Floats are modelled by real numbers:
  rounding, infinities and NaN inside a column are outside the model. The one place where
  the code produces NaN from finite data, the mean of an empty array, is kept explicit in
  the type \<open>float64\<close>. An empty NumPy array behaves the same under every operation used
  here whatever its element type, so \<open>StrCol []\<close> also stands for \<^verbatim>\<open>np.array([])\<close> where
  the code builds it from an empty list of strings.
\<close>

datatype error = FileNotFoundError | IndexError | KeyError | ValueError | TypeError
  | AttributeError

datatype column = StrCol "string list" | NumCol "real list"

datatype cell = S string | N real

datatype float64 = Finite real | NaN

type_synonym dict = "string \<rightharpoonup> column"

record model =
  data :: dict
  headers :: "string list"
  row_count :: nat

definition init_model :: model where
  "init_model = \<lparr>data = Map.empty, headers = [], row_count = 0\<rparr>"

text \<open>Sequencing of steps that may raise: the first exception ends the computation.\<close>

definition ebind :: "error + 'a \<Rightarrow> ('a \<Rightarrow> error + 'b) \<Rightarrow> error + 'b" where
  "ebind r f = (case r of Inl e \<Rightarrow> Inl e | Inr x \<Rightarrow> f x)"

section \<open>Strings\<close>

text \<open>
  \<^verbatim>\<open>str.strip()\<close> removes leading and trailing whitespace; the characters below are the
  code points under 256 for which \<^verbatim>\<open>str.isspace\<close> holds. \<^verbatim>\<open>str.split(sep)\<close> with a
  one-character separator always returns at least one field.
\<close>

definition isspace :: "char \<Rightarrow> bool" where
  "isspace c = (c \<in> set [CHR 0x09, CHR 0x0A, CHR 0x0B, CHR 0x0C, CHR 0x0D,
     CHR 0x1C, CHR 0x1D, CHR 0x1E, CHR 0x1F, CHR 0x20, CHR 0x85, CHR 0xA0])"

definition strip :: "string \<Rightarrow> string" where
  "strip s = rev (dropWhile isspace (rev (dropWhile isspace s)))"

fun py_split :: "char \<Rightarrow> string \<Rightarrow> string list" where
  "py_split sep [] = [[]]"
| "py_split sep (c # cs) =
     (if c = sep then [] # py_split sep cs
      else (case py_split sep cs of
              [] \<Rightarrow> [[c]]
            | f # fs \<Rightarrow> (c # f) # fs))"

text \<open>\<^verbatim>\<open>line.strip().split(',')\<close>, for the header line and for every data line.\<close>

definition split_line :: "string \<Rightarrow> string list" where
  "split_line line = py_split CHR '','' (strip line)"

definition digit_val :: "char \<Rightarrow> nat option" where
  "digit_val c = (if CHR ''0'' \<le> c \<and> c \<le> CHR ''9'' then Some (of_char c - 48) else None)"

text \<open>
  The digits of a decimal numeral, most significant first; Python accepts single
  underscores between digits. \<open>None\<close> when the text is not such a numeral.
\<close>

fun digits :: "string \<Rightarrow> nat list option" where
  "digits [] = None"
| "digits [c] = map_option (\<lambda>d. [d]) (digit_val c)"
| "digits (c # u # cs) =
     (case digit_val c of
        None \<Rightarrow> None
      | Some d \<Rightarrow>
          map_option (\<lambda>ds. d # ds)
            (if u = CHR ''_'' then (case cs of [] \<Rightarrow> None | _ \<Rightarrow>
                 if hd cs = CHR ''_'' then None else digits cs)
             else digits (u # cs)))"

definition nat_of_digits :: "nat list \<Rightarrow> nat" where
  "nat_of_digits ds = foldl (\<lambda>acc d. 10 * acc + d) 0 ds"

definition split_sign :: "string \<Rightarrow> bool \<times> string" where
  "split_sign s =
     (case s of
        [] \<Rightarrow> (False, [])
      | c # cs \<Rightarrow> if c = CHR ''-'' then (True, cs)
                  else if c = CHR ''+'' then (False, cs) else (False, s))"

text \<open>
  \<^verbatim>\<open>int(x)\<close> on a string: surrounding whitespace is ignored, then an optional sign and a
  decimal numeral; anything else raises \<^verbatim>\<open>ValueError\<close> (\<open>None\<close>).
\<close>

definition py_int :: "string \<Rightarrow> int option" where
  "py_int s =
     (let (neg, body) = split_sign (strip s)
      in map_option (\<lambda>ds. if neg then - int (nat_of_digits ds) else int (nat_of_digits ds))
           (digits body))"

text \<open>
  \<^verbatim>\<open>float(x)\<close> enters the development as a parameter \<open>pf\<close> of type
  \<open>string \<Rightarrow> real option\<close> (\<open>None\<close> is \<^verbatim>\<open>ValueError\<close>), so the general results hold for
  every parser. To run the model on concrete files, \<open>py_float\<close> reads the plain decimal
  literals \<^verbatim>\<open>[sign] digits [. digits]\<close>, on which it agrees with Python.
\<close>

definition py_float :: "string \<Rightarrow> real option" where
  "py_float s =
     (let (neg, body) = split_sign (strip s);
          ip = takeWhile (\<lambda>c. c \<noteq> CHR ''.'') body;
          fp = drop (Suc (length ip)) body
      in if length ip = length body then
           map_option (\<lambda>ds. (if neg then -1 else 1) * real (nat_of_digits ds)) (digits ip)
         else
           (case (digits ip, digits fp) of
              (Some ds, Some fs) \<Rightarrow>
                Some ((if neg then -1 else 1) *
                      (real (nat_of_digits ds) + real (nat_of_digits fs) / 10 ^ length fs))
            | _ \<Rightarrow> None))"

section \<open>NumPy primitives used by the code\<close>

definition col_len :: "column \<Rightarrow> nat" where
  "col_len c = (case c of StrCol xs \<Rightarrow> length xs | NumCol xs \<Rightarrow> length xs)"

definition cells :: "column \<Rightarrow> cell list" where
  "cells c = (case c of StrCol xs \<Rightarrow> map S xs | NumCol xs \<Rightarrow> map N xs)"

text \<open>\<^verbatim>\<open>arr != ''\<close>, elementwise; a float never equals a string.\<close>

definition ne_empty :: "column \<Rightarrow> bool list" where
  "ne_empty c = (case c of StrCol xs \<Rightarrow> map (\<lambda>x. x \<noteq> []) xs
                          | NumCol xs \<Rightarrow> map (\<lambda>x. True) xs)"

text \<open>\<^verbatim>\<open>arr == value\<close>, elementwise.\<close>

definition eq_cell :: "column \<Rightarrow> cell \<Rightarrow> bool list" where
  "eq_cell c v =
     (case (c, v) of
        (StrCol xs, S s) \<Rightarrow> map (\<lambda>x. x = s) xs
      | (NumCol xs, N r) \<Rightarrow> map (\<lambda>x. x = r) xs
      | (StrCol xs, N r) \<Rightarrow> map (\<lambda>x. False) xs
      | (NumCol xs, S s) \<Rightarrow> map (\<lambda>x. False) xs)"

text \<open>
  \<^verbatim>\<open>a & b\<close> on one-dimensional boolean arrays: equal lengths combine elementwise, a
  length-one array is broadcast, any other pair of lengths raises \<^verbatim>\<open>ValueError\<close>.
\<close>

definition np_and :: "bool list \<Rightarrow> bool list \<Rightarrow> error + bool list" where
  "np_and a b =
     (if length a = length b then Inr (map2 (\<and>) a b)
      else if length a = 1 then Inr (map (\<lambda>y. hd a \<and> y) b)
      else if length b = 1 then Inr (map (\<lambda>x. x \<and> hd b) a)
      else Inl ValueError)"

definition count_true :: "bool list \<Rightarrow> nat" where
  "count_true msk = length (filter id msk)"

definition select :: "'a list \<Rightarrow> bool list \<Rightarrow> 'a list" where
  "select xs msk = map fst (filter snd (zip xs msk))"

text \<open>
  \<^verbatim>\<open>arr[mask]\<close> with a boolean mask: the mask must be as long as the array, otherwise
  \<^verbatim>\<open>IndexError\<close>.
\<close>

definition col_select :: "column \<Rightarrow> bool list \<Rightarrow> column" where
  "col_select c msk = (case c of StrCol xs \<Rightarrow> StrCol (select xs msk)
                               | NumCol xs \<Rightarrow> NumCol (select xs msk))"

definition mask_index :: "column \<Rightarrow> bool list \<Rightarrow> error + column" where
  "mask_index c msk =
     (if length msk \<noteq> col_len c then Inl IndexError else Inr (col_select c msk))"

text \<open>\<^verbatim>\<open>np.unique\<close>: the distinct values in ascending order.\<close>

definition np_unique :: "column \<Rightarrow> column" where
  "np_unique c = (case c of StrCol xs \<Rightarrow> StrCol (sort (remdups xs))
                          | NumCol xs \<Rightarrow> NumCol (sort (remdups xs)))"

text \<open>Reductions: they raise \<^verbatim>\<open>TypeError\<close> on strings.\<close>

definition np_sum :: "column \<Rightarrow> error + real" where
  "np_sum c = (case c of StrCol xs \<Rightarrow> Inl TypeError | NumCol xs \<Rightarrow> Inr (sum_list xs))"

definition np_mean :: "column \<Rightarrow> error + float64" where
  "np_mean c =
     (case c of
        StrCol xs \<Rightarrow> Inl TypeError
      | NumCol xs \<Rightarrow> Inr (if xs = [] then NaN else Finite (sum_list xs / real (length xs))))"

definition np_max :: "column \<Rightarrow> error + real" where
  "np_max c =
     (case c of
        StrCol xs \<Rightarrow> Inl TypeError
      | NumCol xs \<Rightarrow> if xs = [] then Inl ValueError else Inr (Max (set xs)))"

definition np_min :: "column \<Rightarrow> error + real" where
  "np_min c =
     (case c of
        StrCol xs \<Rightarrow> Inl TypeError
      | NumCol xs \<Rightarrow> if xs = [] then Inl ValueError else Inr (Min (set xs)))"

section \<open>Loading: \<^verbatim>\<open>SupermarketModel.load_csv\<close>\<close>

definition important_columns :: "string list" where
  "important_columns = [''Total'', ''Quantity'', ''Rating'', ''Branch'']"

definition numeric_columns :: "string list" where
  "numeric_columns = [''Unit price'', ''Quantity'', ''Tax 5%'', ''Total'', ''cogs'',
     ''gross margin percentage'', ''gross income'', ''Rating'']"

text \<open>\<^verbatim>\<open>values[i] if i < len(values) else ''\<close>\<close>

definition cell_at :: "string list \<Rightarrow> nat \<Rightarrow> string" where
  "cell_at vals i = (if i < length vals then vals ! i else [])"

text \<open>
  \<^verbatim>\<open>self.data[header].append(x)\<close>: the key must exist and hold a Python list.
\<close>

definition append_to :: "dict \<Rightarrow> string \<Rightarrow> string \<Rightarrow> error + dict" where
  "append_to d header x =
     (case d header of
        None \<Rightarrow> Inl KeyError
      | Some (NumCol xs) \<Rightarrow> Inl AttributeError
      | Some (StrCol xs) \<Rightarrow> Inr (d(header \<mapsto> StrCol (xs @ [x]))))"

text \<open>The inner loop \<^verbatim>\<open>for i, header in enumerate(self.headers)\<close> for one line.\<close>

fun store_row :: "string list \<Rightarrow> (nat \<times> string) list \<Rightarrow> dict \<Rightarrow> error + dict" where
  "store_row vals [] d = Inr d"
| "store_row vals ((i, header) # rest) d =
     ebind (append_to d header (cell_at vals i)) (store_row vals rest)"

text \<open>The outer loop \<^verbatim>\<open>for line in lines[1:]\<close>.\<close>

fun store_rows :: "string list \<Rightarrow> string list \<Rightarrow> dict \<Rightarrow> error + dict" where
  "store_rows hs [] d = Inr d"
| "store_rows hs (line # rest) d =
     ebind (store_row (split_line line) (enumerate 0 hs) d)
       (store_rows hs rest)"

text \<open>
  Lines 35 to 56 of \<^verbatim>\<open>load_csv\<close>: the file is read (\<open>None\<close> when it cannot be opened,
  otherwise the result of \<^verbatim>\<open>readlines()\<close>), the header line is split, every header gets
  an empty list, the data lines are stored and \<^verbatim>\<open>row_count\<close> is set. This is the table
  before cleaning.
\<close>

definition read_table :: "string list option \<Rightarrow> model \<Rightarrow> error + model" where
  "read_table file m =
     (case file of
        None \<Rightarrow> Inl FileNotFoundError
      | Some lines \<Rightarrow>
          (case lines of
             [] \<Rightarrow> Inl IndexError
           | first # rest \<Rightarrow>
               (let hs = split_line first;
                    d0 = fold (\<lambda>header d. d(header \<mapsto> StrCol [])) hs (data m)
                in ebind (store_rows hs rest d0)
                     (\<lambda>d. Inr (m\<lparr>data := d, headers := hs,
                                  row_count := length lines - 1\<rparr>)))))"

text \<open>\<^verbatim>\<open>_convert_to_numpy\<close>: each header's list becomes an array of the same strings.\<close>

definition np_array :: "column \<Rightarrow> column" where
  "np_array c = c"

fun convert_cols :: "string list \<Rightarrow> dict \<Rightarrow> error + dict" where
  "convert_cols [] d = Inr d"
| "convert_cols (header # rest) d =
     (case d header of
        None \<Rightarrow> Inl KeyError
      | Some c \<Rightarrow> convert_cols rest (d(header \<mapsto> np_array c)))"

definition convert_to_numpy :: "model \<Rightarrow> error + model" where
  "convert_to_numpy m = ebind (convert_cols (headers m) (data m)) (\<lambda>d. Inr (m\<lparr>data := d\<rparr>))"

text \<open>
  \<^verbatim>\<open>_safe_convert_to_float\<close>: each value goes through \<^verbatim>\<open>float\<close>; a value that does not
  parse becomes 0.0. A float converts to itself.
\<close>

definition to_float :: "(string \<Rightarrow> real option) \<Rightarrow> string \<Rightarrow> real" where
  "to_float pf val = (case pf val of Some x \<Rightarrow> x | None \<Rightarrow> 0)"

definition safe_convert_to_float :: "(string \<Rightarrow> real option) \<Rightarrow> column \<Rightarrow> column" where
  "safe_convert_to_float pf arr =
     (case arr of StrCol xs \<Rightarrow> NumCol (map (to_float pf) xs) | NumCol xs \<Rightarrow> NumCol xs)"

text \<open>
  The first loop of \<^verbatim>\<open>_clean_data\<close>: for every important column that is in the
  dictionary, \<^verbatim>\<open>valid_rows = valid_rows & (self.data[col] != '')\<close>.
\<close>

fun mark_valid :: "dict \<Rightarrow> string list \<Rightarrow> bool list \<Rightarrow> error + bool list" where
  "mark_valid d [] valid_rows = Inr valid_rows"
| "mark_valid d (col # rest) valid_rows =
     (case d col of
        None \<Rightarrow> mark_valid d rest valid_rows
      | Some c \<Rightarrow> ebind (np_and valid_rows (ne_empty c)) (mark_valid d rest))"

text \<open>\<^verbatim>\<open>for header in self.headers: self.data[header] = self.data[header][valid_rows]\<close>\<close>

fun keep_rows :: "bool list \<Rightarrow> string list \<Rightarrow> dict \<Rightarrow> error + dict" where
  "keep_rows valid_rows [] d = Inr d"
| "keep_rows valid_rows (header # rest) d =
     (case d header of
        None \<Rightarrow> Inl KeyError
      | Some c \<Rightarrow> ebind (mask_index c valid_rows)
                   (\<lambda>c'. keep_rows valid_rows rest (d(header \<mapsto> c'))))"

text \<open>The last loop of \<^verbatim>\<open>_clean_data\<close>, over the numeric columns that are present.\<close>

fun convert_numeric :: "(string \<Rightarrow> real option) \<Rightarrow> string list \<Rightarrow> dict \<Rightarrow> dict" where
  "convert_numeric pf [] d = d"
| "convert_numeric pf (col # rest) d =
     (case d col of
        None \<Rightarrow> convert_numeric pf rest d
      | Some c \<Rightarrow> convert_numeric pf rest (d(col \<mapsto> safe_convert_to_float pf c)))"

definition clean_data :: "(string \<Rightarrow> real option) \<Rightarrow> model \<Rightarrow> error + model" where
  "clean_data pf m =
     ebind (mark_valid (data m) important_columns (replicate (row_count m) True))
       (\<lambda>valid_rows.
          let removed = int (row_count m) - int (count_true valid_rows)
          in ebind (if removed > 0
                    then ebind (keep_rows valid_rows (headers m) (data m))
                           (\<lambda>d. Inr (m\<lparr>data := d, row_count := count_true valid_rows\<rparr>))
                    else Inr m)
               (\<lambda>m1. Inr (m1\<lparr>data := convert_numeric pf numeric_columns (data m1)\<rparr>)))"

text \<open>
  \<^verbatim>\<open>load_csv\<close>. Every exception is caught and the method returns \<^verbatim>\<open>False\<close>: that is the
  \<open>Inl\<close> result here, and \<^verbatim>\<open>app.py\<close> then discards the model. \<open>Inr\<close> carries the
  model after a load that returned \<^verbatim>\<open>True\<close>.
\<close>

definition load_csv :: "(string \<Rightarrow> real option) \<Rightarrow> string list option \<Rightarrow> model \<Rightarrow> error + model"
  where
  "load_csv pf file m =
     ebind (read_table file m) (\<lambda>m1. ebind (convert_to_numpy m1) (clean_data pf))"


section \<open>Queries of the model: \<^verbatim>\<open>model.py\<close>\<close>

text \<open>
  A method of the model or of the view runs on the model object and may raise. It is a
  function from the model before the call to the outcome and the model after the call,
  so that what a query does to the table is part of its meaning. \<open>bnd\<close> sequences two
  steps and passes the model along; an exception ends the sequence and keeps the model
  reached so far.
\<close>

type_synonym 'a prog = "model \<Rightarrow> (error + 'a) \<times> model"

definition ret :: "'a \<Rightarrow> 'a prog" where
  "ret x = (\<lambda>m. (Inr x, m))"

definition lift :: "error + 'a \<Rightarrow> 'a prog" where
  "lift r = (\<lambda>m. (r, m))"

definition bnd :: "'a prog \<Rightarrow> ('a \<Rightarrow> 'b prog) \<Rightarrow> 'b prog" where
  "bnd p f = (\<lambda>m. case p m of (Inl e, m') \<Rightarrow> (Inl e, m') | (Inr x, m') \<Rightarrow> f x m')"

text \<open>\<^verbatim>\<open>acc = []; for x in xs: acc.append(f(x))\<close>\<close>

fun for_each :: "('a \<Rightarrow> 'b prog) \<Rightarrow> 'a list \<Rightarrow> 'b list prog" where
  "for_each f [] = ret []"
| "for_each f (x # xs) = bnd (f x) (\<lambda>y. bnd (for_each f xs) (\<lambda>ys. ret (y # ys)))"

text \<open>\<^verbatim>\<open>d[key]\<close> on a dictionary.\<close>

definition item :: "dict \<Rightarrow> string \<Rightarrow> error + column" where
  "item d key = (case d key of None \<Rightarrow> Inl KeyError | Some c \<Rightarrow> Inr c)"

text \<open>\<^verbatim>\<open>self.data[key]\<close> and \<^verbatim>\<open>self.row_count\<close>.\<close>

definition data_item :: "string \<Rightarrow> column prog" where
  "data_item key = (\<lambda>m. (item (data m) key, m))"

definition get_row_count :: "nat prog" where
  "get_row_count = (\<lambda>m. (Inr (row_count m), m))"

text \<open>\<^verbatim>\<open>self.data.get(column_name, np.array([]))\<close>: the default is an empty float array.\<close>

definition get_column :: "string \<Rightarrow> column prog" where
  "get_column column_name =
     (\<lambda>m. (Inr (case data m column_name of None \<Rightarrow> NumCol [] | Some c \<Rightarrow> c), m))"

definition get_unique_values :: "string \<Rightarrow> column prog" where
  "get_unique_values column_name =
     (\<lambda>m. (Inr (np_unique (case data m column_name of None \<Rightarrow> NumCol [] | Some c \<Rightarrow> c)), m))"

text \<open>
  The loop of \<^verbatim>\<open>filter_by_value\<close>: \<^verbatim>\<open>filtered_data[header] = self.data[header][mask]\<close>
  for every header, into a new dictionary.
\<close>

fun filter_cols :: "dict \<Rightarrow> bool list \<Rightarrow> string list \<Rightarrow> dict \<Rightarrow> error + dict" where
  "filter_cols d msk [] filtered_data = Inr filtered_data"
| "filter_cols d msk (header # rest) filtered_data =
     ebind (item d header)
       (\<lambda>c. ebind (mask_index c msk)
          (\<lambda>c'. filter_cols d msk rest (filtered_data(header \<mapsto> c'))))"

definition filter_by_value :: "string \<Rightarrow> cell \<Rightarrow> dict prog" where
  "filter_by_value column_name v =
     (\<lambda>m. (ebind (item (data m) column_name)
              (\<lambda>c. filter_cols (data m) (eq_cell c v) (headers m) Map.empty), m))"

record summary =
  total_rows :: nat
  total_sales :: real
  average_rating :: float64
  total_quantity :: real
  branches :: nat
  cities :: nat
  product_lines :: nat

definition get_summary :: "summary prog" where
  "get_summary =
     bnd get_row_count (\<lambda>n.
     bnd (data_item ''Total'') (\<lambda>total.
     bnd (lift (np_sum total)) (\<lambda>sales.
     bnd (data_item ''Rating'') (\<lambda>rating.
     bnd (lift (np_mean rating)) (\<lambda>avg.
     bnd (data_item ''Quantity'') (\<lambda>quantity.
     bnd (lift (np_sum quantity)) (\<lambda>qty.
     bnd (get_unique_values ''Branch'') (\<lambda>bs.
     bnd (get_unique_values ''City'') (\<lambda>cs.
     bnd (get_unique_values ''Product line'') (\<lambda>ps.
     ret \<lparr>total_rows = n, total_sales = sales, average_rating = avg,
          total_quantity = qty, branches = col_len bs, cities = col_len cs,
          product_lines = col_len ps\<rparr>))))))))))"

section \<open>Aggregations of the view: \<^verbatim>\<open>view.py\<close>\<close>

text \<open>
  The view holds a reference to the model, so each of its methods is a program on the
  model too. The grouped queries take the unique values of a column and, for each of
  them, filter the whole table and reduce one column of the filtered dictionary.
\<close>

definition get_sales_by_branch :: "(column \<times> real list) prog" where
  "get_sales_by_branch =
     bnd (get_unique_values ''Branch'') (\<lambda>branches.
     bnd (for_each (\<lambda>branch.
            bnd (filter_by_value ''Branch'' branch) (\<lambda>branch_data.
            lift (ebind (item branch_data ''Total'') np_sum)))
          (cells branches)) (\<lambda>sales.
     ret (branches, sales)))"

definition get_sales_by_city :: "(column \<times> real list) prog" where
  "get_sales_by_city =
     bnd (get_unique_values ''City'') (\<lambda>cities.
     bnd (for_each (\<lambda>city.
            bnd (filter_by_value ''City'' city) (\<lambda>city_data.
            lift (ebind (item city_data ''Total'') np_sum)))
          (cells cities)) (\<lambda>sales.
     ret (cities, sales)))"

definition get_sales_by_product_line :: "(column \<times> real list) prog" where
  "get_sales_by_product_line =
     bnd (get_unique_values ''Product line'') (\<lambda>products.
     bnd (for_each (\<lambda>product.
            bnd (filter_by_value ''Product line'' product) (\<lambda>product_data.
            lift (ebind (item product_data ''Total'') np_sum)))
          (cells products)) (\<lambda>sales.
     ret (products, sales)))"

definition get_payment_method_distribution :: "(column \<times> nat list) prog" where
  "get_payment_method_distribution =
     bnd (get_unique_values ''Payment'') (\<lambda>methods.
     bnd (for_each (\<lambda>method.
            bnd (filter_by_value ''Payment'' method) (\<lambda>method_data.
            lift (ebind (item method_data ''Payment'') (\<lambda>c. Inr (col_len c)))))
          (cells methods)) (\<lambda>counts.
     ret (methods, counts)))"

definition get_customer_type_analysis :: "(column \<times> real list \<times> nat list) prog" where
  "get_customer_type_analysis =
     bnd (get_unique_values ''Customer type'') (\<lambda>customer_types.
     bnd (for_each (\<lambda>ctype.
            bnd (filter_by_value ''Customer type'' ctype) (\<lambda>ctype_data.
            lift (ebind (item ctype_data ''Total'') (\<lambda>c.
                  ebind (np_sum c) (\<lambda>total. Inr (total, col_len c))))))
          (cells customer_types)) (\<lambda>rows.
     ret (customer_types, map fst rows, map snd rows)))"

definition get_gender_analysis :: "(column \<times> real list \<times> nat list) prog" where
  "get_gender_analysis =
     bnd (get_unique_values ''Gender'') (\<lambda>genders.
     bnd (for_each (\<lambda>gender.
            bnd (filter_by_value ''Gender'' gender) (\<lambda>gender_data.
            lift (ebind (item gender_data ''Total'') (\<lambda>c.
                  ebind (np_sum c) (\<lambda>total. Inr (total, col_len c))))))
          (cells genders)) (\<lambda>rows.
     ret (genders, map fst rows, map snd rows)))"

text \<open>
  \<^verbatim>\<open>np.arange(start, stop, step)\<close> has \<open>\<lceil>(stop - start) / step\<rceil>\<close> elements
  \<open>start + i * step\<close>. \<^verbatim>\<open>np.histogram(a, bins=edges)\<close> counts, for each pair of
  neighbouring edges, the values from the left edge up to but not including the right
  edge; the last bin alone also includes its right edge.
\<close>

definition np_arange :: "real \<Rightarrow> real \<Rightarrow> real \<Rightarrow> real list" where
  "np_arange start stop step =
     map (\<lambda>i. start + real i * step) [0..<nat \<lceil>(stop - start) / step\<rceil>]"

fun histogram :: "real list \<Rightarrow> real list \<Rightarrow> nat list" where
  "histogram a [lo, hi] = [length (filter (\<lambda>x. lo \<le> x \<and> x \<le> hi) a)]"
| "histogram a (lo # hi # edges) =
     length (filter (\<lambda>x. lo \<le> x \<and> x < hi) a) # histogram a (hi # edges)"
| "histogram a edges = []"

definition np_histogram :: "column \<Rightarrow> real list \<Rightarrow> error + nat list" where
  "np_histogram c edges =
     (case c of StrCol xs \<Rightarrow> Inl TypeError | NumCol xs \<Rightarrow> Inr (histogram xs edges))"

definition get_rating_distribution :: "(real list \<times> nat list) prog" where
  "get_rating_distribution =
     bnd (get_column ''Rating'') (\<lambda>ratings.
     let bins = np_arange 4.0 10.5 0.5
     in bnd (lift (np_histogram ratings bins)) (\<lambda>hist.
        ret (bins, hist)))"

text \<open>
  The loop of \<^verbatim>\<open>get_monthly_sales_trend\<close>. The dictionary \<^verbatim>\<open>monthly_sales\<close> keeps its
  keys in insertion order, so it is a list of pairs. Inside the \<^verbatim>\<open>try\<close>: the month is the
  text before the first slash (a float has no \<^verbatim>\<open>split\<close>: the row is skipped); a new
  month is entered with 0; then \<^verbatim>\<open>totals[i]\<close> is added, and if that raises (no such
  index, or a string) the row is skipped with the month already entered.
\<close>

definition add_to_month :: "(string \<times> real) list \<Rightarrow> string \<Rightarrow> real \<Rightarrow> (string \<times> real) list"
  where
  "add_to_month ms month x = map (\<lambda>(k, v). if k = month then (k, v + x) else (k, v)) ms"

definition trend_row :: "column \<Rightarrow> nat \<Rightarrow> cell \<Rightarrow> (string \<times> real) list \<Rightarrow> (string \<times> real) list"
  where
  "trend_row totals i date ms =
     (case date of
        N r \<Rightarrow> ms
      | S s \<Rightarrow>
          (case py_split CHR ''/'' s of
             [] \<Rightarrow> ms
           | month # rest \<Rightarrow>
               (let ms1 = (if month \<in> set (map fst ms) then ms else ms @ [(month, 0)])
                in case totals of
                     StrCol ts \<Rightarrow> ms1
                   | NumCol ts \<Rightarrow> if i < length ts then add_to_month ms1 month (ts ! i)
                                  else ms1)))"

fun trend_rows :: "column \<Rightarrow> (nat \<times> cell) list \<Rightarrow> (string \<times> real) list \<Rightarrow> (string \<times> real) list"
  where
  "trend_rows totals [] ms = ms"
| "trend_rows totals ((i, date) # rest) ms = trend_rows totals rest (trend_row totals i date ms)"

text \<open>
  \<^verbatim>\<open>sorted(keys, key=lambda x: int(x))\<close>: \<^verbatim>\<open>int\<close> is applied to every key, outside any
  \<^verbatim>\<open>try\<close>, and the sort is stable.
\<close>

definition sorted_by_int :: "string list \<Rightarrow> error + string list" where
  "sorted_by_int ks =
     (if \<exists>k\<in>set ks. py_int k = None then Inl ValueError
      else Inr (sort_key (\<lambda>k. case py_int k of Some n \<Rightarrow> n | None \<Rightarrow> 0) ks))"

fun emap :: "('a \<Rightarrow> error + 'b) \<Rightarrow> 'a list \<Rightarrow> error + 'b list" where
  "emap f [] = Inr []"
| "emap f (x # xs) = ebind (f x) (\<lambda>y. ebind (emap f xs) (\<lambda>ys. Inr (y # ys)))"

definition month_map :: "(string \<times> string) list" where
  "month_map = [(''1'', ''January''), (''2'', ''February''), (''3'', ''March''),
     (''4'', ''April''), (''5'', ''May''), (''6'', ''June''), (''7'', ''July''),
     (''8'', ''August''), (''9'', ''September''), (''10'', ''October''),
     (''11'', ''November''), (''12'', ''December'')]"

definition get_monthly_sales_trend :: "(string list \<times> real list) prog" where
  "get_monthly_sales_trend =
     bnd (get_column ''Date'') (\<lambda>dates.
     bnd (get_column ''Total'') (\<lambda>totals.
     let monthly_sales = trend_rows totals (enumerate 0 (cells dates)) []
     in bnd (lift (sorted_by_int (map fst monthly_sales))) (\<lambda>months.
        bnd (lift (emap (\<lambda>m. case map_of monthly_sales m of
                                None \<Rightarrow> Inl KeyError | Some v \<Rightarrow> Inr v) months)) (\<lambda>sales.
        let month_names = map (\<lambda>m. case map_of month_map m of None \<Rightarrow> m | Some name \<Rightarrow> name)
                            months
        in ret (month_names, sales)))))"

text \<open>
  \<^verbatim>\<open>np.argsort(sales)\<close>: the indices that sort the array in ascending order. NumPy's
  default sort kind promises no order among equal keys; the model is the stable order,
  which is what its insertion sort gives on the short arrays of this query.
  \<^verbatim>\<open>xs[:n]\<close> drops the last \<open>-n\<close> elements when \<open>n\<close> is negative. \<^verbatim>\<open>arr[indices]\<close> raises
  \<^verbatim>\<open>IndexError\<close> on an index out of bounds.
\<close>

definition argsort :: "real list \<Rightarrow> nat list" where
  "argsort xs = map snd (sort_key fst (zip xs [0..<length xs]))"

definition slice_to :: "int \<Rightarrow> 'a list \<Rightarrow> 'a list" where
  "slice_to n xs = (if 0 \<le> n then take (nat n) xs else take (length xs - nat (- n)) xs)"

definition index_list :: "'a list \<Rightarrow> nat list \<Rightarrow> error + 'a list" where
  "index_list xs idx = emap (\<lambda>i. if i < length xs then Inr (xs ! i) else Inl IndexError) idx"

definition index_col :: "column \<Rightarrow> nat list \<Rightarrow> error + column" where
  "index_col c idx =
     (case c of StrCol xs \<Rightarrow> ebind (index_list xs idx) (\<lambda>ys. Inr (StrCol ys))
              | NumCol xs \<Rightarrow> ebind (index_list xs idx) (\<lambda>ys. Inr (NumCol ys)))"

definition get_top_products :: "int \<Rightarrow> (column \<times> real list) prog" where
  "get_top_products top_n =
     bnd get_sales_by_product_line (\<lambda>(products, sales).
     let sorted_indices = rev (argsort sales)
     in bnd (lift (index_col products (slice_to top_n sorted_indices))) (\<lambda>top_products.
        bnd (lift (index_list sales (slice_to top_n sorted_indices))) (\<lambda>top_sales.
        ret (top_products, top_sales))))"

definition get_average_basket_size :: "float64 prog" where
  "get_average_basket_size = bnd (get_column ''Quantity'') (\<lambda>quantities. lift (np_mean quantities))"

definition get_average_transaction_value :: "float64 prog" where
  "get_average_transaction_value = bnd (get_column ''Total'') (\<lambda>totals. lift (np_mean totals))"

record kpis =
  total_revenue :: real
  total_transactions :: nat
  average_transaction :: float64
  total_items_sold :: real
  kpi_average_rating :: float64
  max_transaction :: real
  min_transaction :: real

definition get_kpis :: "kpis prog" where
  "get_kpis =
     bnd (get_column ''Total'') (\<lambda>totals.
     bnd (get_column ''Quantity'') (\<lambda>quantities.
     bnd (get_column ''Rating'') (\<lambda>ratings.
     bnd (lift (np_sum totals)) (\<lambda>revenue.
     bnd (lift (np_mean totals)) (\<lambda>avg_t.
     bnd (lift (np_sum quantities)) (\<lambda>items.
     bnd (lift (np_mean ratings)) (\<lambda>avg_r.
     bnd (lift (np_max totals)) (\<lambda>mx.
     bnd (lift (np_min totals)) (\<lambda>mn.
     ret \<lparr>total_revenue = revenue, total_transactions = col_len totals,
          average_transaction = avg_t, total_items_sold = items,
          kpi_average_rating = avg_r, max_transaction = mx, min_transaction = mn\<rparr>)))))))))"

text \<open>
  The flow of \<^verbatim>\<open>app.py\<close>: a fresh model loads the uploaded file and, when the load
  returned \<^verbatim>\<open>True\<close>, a query runs on it. Concrete files are run with \<open>py_float\<close>.
\<close>

definition on_file :: "string list \<Rightarrow> 'a prog \<Rightarrow> error + 'a" where
  "on_file file_lines query =
     ebind (load_csv py_float (Some file_lines) init_model) (\<lambda>m. fst (query m))"

section \<open>Notions used to state the results\<close>

text \<open>
  The parsed data lines of a file, and the column that position \<open>i\<close> of the header
  receives from them.
\<close>

definition raw_rows :: "string list \<Rightarrow> string list list" where
  "raw_rows ls = map split_line ls"

definition column_of :: "string list list \<Rightarrow> nat \<Rightarrow> string list" where
  "column_of rows i = map (\<lambda>vals. cell_at vals i) rows"

text \<open>
  The positions of the header that carry the name \<open>h\<close>, and a list of strings grown
  by further values; a float array or a missing key stays as it is.
\<close>

definition positions :: "string list \<Rightarrow> string \<Rightarrow> nat list" where
  "positions hs h = filter (\<lambda>i. hs ! i = h) [0..<length hs]"

fun extend :: "column option \<Rightarrow> string list \<Rightarrow> column option" where
  "extend (Some (StrCol xs)) ys = Some (StrCol (xs @ ys))"
| "extend c ys = c"

text \<open>
  What the cleaning step tests on a row: every important column that occurs in the
  header has a non-empty value in the row.
\<close>

definition row_valid :: "string list \<Rightarrow> string list \<Rightarrow> bool" where
  "row_valid hs vals =
     (\<forall>c\<in>set important_columns. \<forall>i<length hs. hs ! i = c \<longrightarrow> cell_at vals i \<noteq> [])"

text \<open>
  Row validity in the words of the specification: each of the required columns is present
  and non-empty for the row.
\<close>

definition spec_row_valid :: "string list \<Rightarrow> string list \<Rightarrow> bool" where
  "spec_row_valid hs vals =
     (\<forall>c\<in>set important_columns. \<exists>i<length hs. hs ! i = c \<and> cell_at vals i \<noteq> [])"

text \<open>The stored form of a column after loading: floats under a numeric name, text otherwise.\<close>

definition final_col :: "(string \<Rightarrow> real option) \<Rightarrow> string \<Rightarrow> string list \<Rightarrow> column" where
  "final_col pf h xs =
     (if h \<in> set numeric_columns then NumCol (map (to_float pf) xs) else StrCol xs)"


text \<open>A program that leaves the model as it found it, whatever its outcome.\<close>

definition frame :: "'a prog \<Rightarrow> bool" where
  "frame p = (\<forall>m. snd (p m) = m)"

section \<open>Loading a file with distinct column names\<close>

lemma ebind_Inr [simp]: "ebind (Inr x) f = f x"
  by (simp add: ebind_def)

lemma ebind_Inl [simp]: "ebind (Inl e) f = Inl e"
  by (simp add: ebind_def)

lemma store_row_ok:
  "distinct (map snd ps) \<Longrightarrow> (\<forall>p\<in>set ps. \<exists>xs. d (snd p) = Some (StrCol xs)) \<Longrightarrow>
   \<exists>d'. store_row vals ps d = Inr d' \<and>
     (\<forall>h. h \<notin> snd ` set ps \<longrightarrow> d' h = d h) \<and>
     (\<forall>p\<in>set ps. \<forall>xs. d (snd p) = Some (StrCol xs) \<longrightarrow>
         d' (snd p) = Some (StrCol (xs @ [cell_at vals (fst p)])))"
proof (induction ps arbitrary: d)
  case Nil
  then show ?case by simp
next
  case (Cons p ps)
  obtain i h where p: "p = (i, h)" by (cases p)
  from Cons.prems obtain xs where xs: "d h = Some (StrCol xs)"
    by (auto simp: p)
  let ?d1 = "d(h \<mapsto> StrCol (xs @ [cell_at vals i]))"
  have h_notin: "h \<notin> snd ` set ps" using Cons.prems(1) by (simp add: p)
  have step: "store_row vals (p # ps) d = store_row vals ps ?d1"
    by (simp add: p append_to_def xs)
  have d1: "\<forall>q\<in>set ps. \<exists>ys. ?d1 (snd q) = Some (StrCol ys)"
    using Cons.prems(2) by auto
  have dist: "distinct (map snd ps)" using Cons.prems(1) by simp
  from Cons.IH [OF dist d1]
  obtain d' where d': "store_row vals ps ?d1 = Inr d'"
    and keep: "\<forall>g. g \<notin> snd ` set ps \<longrightarrow> d' g = ?d1 g"
    and upd: "\<forall>q\<in>set ps. \<forall>ys. ?d1 (snd q) = Some (StrCol ys) \<longrightarrow>
         d' (snd q) = Some (StrCol (ys @ [cell_at vals (fst q)]))"
    by blast
  have a: "\<forall>g. g \<notin> snd ` set (p # ps) \<longrightarrow> d' g = d g"
    using keep by (auto simp: p)
  have b: "\<forall>q\<in>set (p # ps). \<forall>ys. d (snd q) = Some (StrCol ys) \<longrightarrow>
         d' (snd q) = Some (StrCol (ys @ [cell_at vals (fst q)]))"
  proof (intro ballI allI impI)
    fix q ys assume q: "q \<in> set (p # ps)" and ys: "d (snd q) = Some (StrCol ys)"
    show "d' (snd q) = Some (StrCol (ys @ [cell_at vals (fst q)]))"
    proof (cases "q \<in> set ps")
      case True
      then have "snd q \<noteq> h" using h_notin by auto
      then have "?d1 (snd q) = Some (StrCol ys)" using ys by simp
      with upd True show ?thesis by blast
    next
      case False
      then have "q = p" using q by simp
      then show ?thesis using keep h_notin xs ys by (simp add: p)
    qed
  qed
  show ?case using step d' a b by simp
qed

lemma store_rows_ok:
  "distinct hs \<Longrightarrow> (\<forall>h\<in>set hs. \<exists>xs. d h = Some (StrCol xs)) \<Longrightarrow>
   \<exists>d'. store_rows hs ls d = Inr d' \<and>
     (\<forall>h. h \<notin> set hs \<longrightarrow> d' h = d h) \<and>
     (\<forall>i<length hs. \<forall>xs. d (hs ! i) = Some (StrCol xs) \<longrightarrow>
         d' (hs ! i) = Some (StrCol (xs @ column_of (raw_rows ls) i)))"
proof (induction ls arbitrary: d)
  case Nil
  then show ?case by (simp add: raw_rows_def column_of_def)
next
  case (Cons l ls)
  let ?vals = "split_line l"
  have dist: "distinct (map snd (enumerate 0 hs))" using Cons.prems(1) by simp
  have pres: "\<forall>p\<in>set (enumerate 0 hs). \<exists>xs. d (snd p) = Some (StrCol xs)"
    using Cons.prems(2) by (auto simp: in_set_enumerate_eq)
  from store_row_ok [OF dist pres, of ?vals]
  obtain d1 where d1: "store_row ?vals (enumerate 0 hs) d = Inr d1"
    and keep1: "\<forall>h. h \<notin> snd ` set (enumerate 0 hs) \<longrightarrow> d1 h = d h"
    and upd1: "\<forall>p\<in>set (enumerate 0 hs). \<forall>xs. d (snd p) = Some (StrCol xs) \<longrightarrow>
         d1 (snd p) = Some (StrCol (xs @ [cell_at ?vals (fst p)]))"
    by blast
  have img: "snd ` set (enumerate 0 hs) = set hs"
    by (metis list.set_map map_snd_enumerate)
  have upd1': "\<forall>i<length hs. \<forall>xs. d (hs ! i) = Some (StrCol xs) \<longrightarrow>
         d1 (hs ! i) = Some (StrCol (xs @ [cell_at ?vals i]))"
  proof (intro allI impI)
    fix i xs assume i: "i < length hs" and xs: "d (hs ! i) = Some (StrCol xs)"
    have "(i, hs ! i) \<in> set (enumerate 0 hs)" using i by (simp add: in_set_enumerate_eq)
    with upd1 xs show "d1 (hs ! i) = Some (StrCol (xs @ [cell_at ?vals i]))" by fastforce
  qed
  have pres1: "\<forall>h\<in>set hs. \<exists>xs. d1 h = Some (StrCol xs)"
  proof
    fix h assume "h \<in> set hs"
    then obtain i where i: "i < length hs" "hs ! i = h" by (auto simp: in_set_conv_nth)
    from Cons.prems(2) \<open>h \<in> set hs\<close> obtain xs where "d h = Some (StrCol xs)" by blast
    with upd1' i show "\<exists>xs. d1 h = Some (StrCol xs)" by auto
  qed
  from Cons.IH [OF Cons.prems(1) pres1]
  obtain d' where d': "store_rows hs ls d1 = Inr d'"
    and keep: "\<forall>h. h \<notin> set hs \<longrightarrow> d' h = d1 h"
    and upd: "\<forall>i<length hs. \<forall>xs. d1 (hs ! i) = Some (StrCol xs) \<longrightarrow>
         d' (hs ! i) = Some (StrCol (xs @ column_of (raw_rows ls) i))"
    by blast
  have a: "store_rows hs (l # ls) d = Inr d'" using d1 d' by simp
  have b: "\<forall>h. h \<notin> set hs \<longrightarrow> d' h = d h" using keep keep1 img by simp
  have c: "\<forall>i<length hs. \<forall>xs. d (hs ! i) = Some (StrCol xs) \<longrightarrow>
         d' (hs ! i) = Some (StrCol (xs @ column_of (raw_rows (l # ls)) i))"
  proof (intro allI impI)
    fix i xs assume i: "i < length hs" and xs: "d (hs ! i) = Some (StrCol xs)"
    from upd1' i xs have "d1 (hs ! i) = Some (StrCol (xs @ [cell_at ?vals i]))" by blast
    with upd i have "d' (hs ! i) = Some (StrCol ((xs @ [cell_at ?vals i]) @ column_of (raw_rows ls) i))"
      by blast
    then show "d' (hs ! i) = Some (StrCol (xs @ column_of (raw_rows (l # ls)) i))"
      by (simp add: raw_rows_def column_of_def)
  qed
  show ?case using a b c by blast
qed

lemma fold_init_headers:
  "fold (\<lambda>header d. d(header \<mapsto> StrCol [])) hs d0 =
     (\<lambda>k. if k \<in> set hs then Some (StrCol []) else d0 k)"
  by (induction hs arbitrary: d0) (auto simp: fun_eq_iff)


lemma read_table_ok:
  assumes hs: "hs = split_line l" and dist: "distinct hs"
  shows "\<exists>m. read_table (Some (l # ls)) init_model = Inr m \<and> headers m = hs \<and>
           row_count m = length ls \<and>
           (\<forall>h. h \<notin> set hs \<longrightarrow> data m h = None) \<and>
           (\<forall>i<length hs. data m (hs ! i) = Some (StrCol (column_of (raw_rows ls) i)))"
proof -
  let ?d0 = "fold (\<lambda>header d. d(header \<mapsto> StrCol [])) hs (data init_model)"
  have d0: "?d0 = (\<lambda>k. if k \<in> set hs then Some (StrCol []) else None)"
    by (simp add: fold_init_headers init_model_def)
  have pres: "\<forall>h\<in>set hs. \<exists>xs. ?d0 h = Some (StrCol xs)" by (simp add: d0)
  from store_rows_ok [OF dist pres, of ls]
  obtain d' where d': "store_rows hs ls ?d0 = Inr d'"
    and keep: "\<forall>h. h \<notin> set hs \<longrightarrow> d' h = ?d0 h"
    and upd: "\<forall>i<length hs. \<forall>xs. ?d0 (hs ! i) = Some (StrCol xs) \<longrightarrow>
         d' (hs ! i) = Some (StrCol (xs @ column_of (raw_rows ls) i))"
    by blast
  have a: "read_table (Some (l # ls)) init_model =
             Inr (init_model\<lparr>data := d', headers := hs, row_count := length ls\<rparr>)"
    using d' by (simp add: read_table_def hs [symmetric] Let_def)
  have b: "\<forall>h. h \<notin> set hs \<longrightarrow> d' h = None" using keep by (simp add: d0)
  have c: "\<forall>i<length hs. d' (hs ! i) = Some (StrCol (column_of (raw_rows ls) i))"
  proof (intro allI impI)
    fix i assume i: "i < length hs"
    then have "?d0 (hs ! i) = Some (StrCol [])" by (simp add: d0)
    with upd i show "d' (hs ! i) = Some (StrCol (column_of (raw_rows ls) i))" by fastforce
  qed
  show ?thesis using a b c by simp
qed

lemma convert_cols_ok:
  "(\<forall>h\<in>set hs. d h \<noteq> None) \<Longrightarrow> convert_cols hs d = Inr d"
  by (induction hs arbitrary: d) (auto simp: np_array_def map_upd_triv)

lemma convert_to_numpy_ok:
  "(\<forall>h\<in>set (headers m). data m h \<noteq> None) \<Longrightarrow> convert_to_numpy m = Inr m"
  by (simp add: convert_to_numpy_def convert_cols_ok)

lemma mark_valid_ok:
  "(\<forall>c\<in>set cols. \<forall>col. d c = Some col \<longrightarrow> (\<exists>xs. col = StrCol xs \<and> length xs = length v)) \<Longrightarrow>
   mark_valid d cols v =
     Inr (map (\<lambda>k. v ! k \<and> (\<forall>c\<in>set cols. \<forall>xs. d c = Some (StrCol xs) \<longrightarrow> xs ! k \<noteq> []))
            [0..<length v])"
proof (induction cols arbitrary: v)
  case Nil
  then show ?case by (simp add: map_nth)
next
  case (Cons c cols)
  show ?case
  proof (cases "d c")
    case None
    with Cons show ?thesis by simp
  next
    case (Some col)
    with Cons.prems obtain xs where xs: "col = StrCol xs" "length xs = length v" by auto
    let ?v1 = "map2 (\<and>) v (map (\<lambda>x. x \<noteq> []) xs)"
    have len: "length ?v1 = length v" using xs by simp
    have and1: "np_and v (ne_empty col) = Inr ?v1"
      using xs by (simp add: np_and_def ne_empty_def)
    have pre: "\<forall>c\<in>set cols. \<forall>col. d c = Some col \<longrightarrow>
                 (\<exists>xs. col = StrCol xs \<and> length xs = length ?v1)"
      using Cons.prems len by simp
    have "mark_valid d (c # cols) v = mark_valid d cols ?v1"
      using Some and1 by simp
    also have "\<dots> = Inr (map (\<lambda>k. ?v1 ! k \<and>
          (\<forall>c\<in>set cols. \<forall>xs. d c = Some (StrCol xs) \<longrightarrow> xs ! k \<noteq> [])) [0..<length ?v1])"
      by (rule Cons.IH [OF pre])
    also have "\<dots> = Inr (map (\<lambda>k. v ! k \<and>
          (\<forall>c\<in>set (c # cols). \<forall>xs. d c = Some (StrCol xs) \<longrightarrow> xs ! k \<noteq> [])) [0..<length v])"
      using xs Some by (auto simp: len)
    finally show ?thesis .
  qed
qed

lemma keep_rows_ok:
  "distinct hs \<Longrightarrow> (\<forall>h\<in>set hs. \<exists>c. d h = Some c \<and> col_len c = length msk) \<Longrightarrow>
   keep_rows msk hs d =
     Inr (\<lambda>h. if h \<in> set hs then map_option (\<lambda>c. col_select c msk) (d h) else d h)"
proof (induction hs arbitrary: d)
  case Nil
  then show ?case by simp
next
  case (Cons h hs)
  from Cons.prems obtain c where c: "d h = Some c" "col_len c = length msk" by auto
  let ?d1 = "d(h \<mapsto> col_select c msk)"
  have pre: "\<forall>g\<in>set hs. \<exists>c. ?d1 g = Some c \<and> col_len c = length msk"
    using Cons.prems by auto
  have dist: "distinct hs" using Cons.prems by simp
  have "keep_rows msk (h # hs) d = keep_rows msk hs ?d1"
    using c by (simp add: mask_index_def)
  also have "\<dots> = Inr (\<lambda>g. if g \<in> set hs then map_option (\<lambda>c. col_select c msk) (?d1 g)
                            else ?d1 g)"
    by (rule Cons.IH [OF dist pre])
  also have "\<dots> = Inr (\<lambda>g. if g \<in> set (h # hs) then map_option (\<lambda>c. col_select c msk) (d g)
                            else d g)"
    using Cons.prems(1) c by (auto simp: fun_eq_iff)
  finally show ?case .
qed

lemma convert_numeric_ok:
  "distinct cols \<Longrightarrow>
   convert_numeric pf cols d =
     (\<lambda>h. if h \<in> set cols then map_option (safe_convert_to_float pf) (d h) else d h)"
proof (induction cols arbitrary: d)
  case Nil
  then show ?case by simp
next
  case (Cons c cols)
  then show ?case by (cases "d c") (auto simp: fun_eq_iff)
qed

lemma select_map_filter: "select (map f xs) (map P xs) = map f (filter P xs)"
  by (induction xs) (auto simp: select_def)

lemma count_true_map: "count_true (map P xs) = length (filter P xs)"
  by (induction xs) (auto simp: count_true_def)


lemma filter_all_length: "length (filter P xs) = length xs \<Longrightarrow> filter P xs = xs"
proof (induction xs)
  case Nil
  then show ?case by simp
next
  case (Cons x xs)
  have le: "length (filter P xs) \<le> length xs" by simp
  show ?case
  proof (cases "P x")
    case True
    with Cons show ?thesis by simp
  next
    case False
    with Cons.prems le show ?thesis by simp
  qed
qed

lemma map_upt_nth: "map (\<lambda>k. f (xs ! k)) [0..<length xs] = map f xs"
proof -
  have "map (\<lambda>k. f (xs ! k)) [0..<length xs] = map f (map ((!) xs) [0..<length xs])"
    by (simp add: comp_def)
  then show ?thesis by (simp add: map_nth)
qed

lemma distinct_headers_index:
  "distinct hs \<Longrightarrow> i < length hs \<Longrightarrow> j < length hs \<Longrightarrow> hs ! i = hs ! j \<Longrightarrow> i = j"
  by (simp add: nth_eq_iff_index_eq)

lemma mark_valid_table:
  assumes dist: "distinct hs"
    and none: "\<forall>h. h \<notin> set hs \<longrightarrow> d h = None"
    and cols: "\<forall>i<length hs. d (hs ! i) = Some (StrCol (column_of rows i))"
  shows "mark_valid d important_columns (replicate (length rows) True) =
           Inr (map (row_valid hs) rows)"
proof -
  let ?v = "replicate (length rows) True"
  have pre: "\<forall>c\<in>set important_columns. \<forall>col. d c = Some col \<longrightarrow>
               (\<exists>xs. col = StrCol xs \<and> length xs = length ?v)"
  proof (intro ballI allI impI)
    fix c col assume col: "d c = Some col"
    with none have "c \<in> set hs" by force
    then obtain i where i: "i < length hs" "hs ! i = c" by (auto simp: in_set_conv_nth)
    with cols col have "col = StrCol (column_of rows i)" by auto
    then show "\<exists>xs. col = StrCol xs \<and> length xs = length ?v"
      by (simp add: column_of_def)
  qed
  have eq: "\<And>k. k < length rows \<Longrightarrow>
      (\<forall>c\<in>set important_columns. \<forall>xs. d c = Some (StrCol xs) \<longrightarrow> xs ! k \<noteq> []) =
      row_valid hs (rows ! k)"
  proof -
    fix k assume k: "k < length rows"
    show "(\<forall>c\<in>set important_columns. \<forall>xs. d c = Some (StrCol xs) \<longrightarrow> xs ! k \<noteq> []) =
      row_valid hs (rows ! k)"
    proof
      assume L: "\<forall>c\<in>set important_columns. \<forall>xs. d c = Some (StrCol xs) \<longrightarrow> xs ! k \<noteq> []"
      show "row_valid hs (rows ! k)"
        unfolding row_valid_def
      proof (intro ballI allI impI)
        fix c i assume c: "c \<in> set important_columns" and i: "i < length hs" "hs ! i = c"
        from cols i have "d c = Some (StrCol (column_of rows i))" by auto
        with L c have "column_of rows i ! k \<noteq> []" by blast
        then show "cell_at (rows ! k) i \<noteq> []" using k by (simp add: column_of_def)
      qed
    next
      assume R: "row_valid hs (rows ! k)"
      show "\<forall>c\<in>set important_columns. \<forall>xs. d c = Some (StrCol xs) \<longrightarrow> xs ! k \<noteq> []"
      proof (intro ballI allI impI)
        fix c xs assume c: "c \<in> set important_columns" and xs: "d c = Some (StrCol xs)"
        with none have "c \<in> set hs" by force
        then obtain i where i: "i < length hs" "hs ! i = c" by (auto simp: in_set_conv_nth)
        with cols xs have xs': "xs = column_of rows i" by auto
        from R c i have "cell_at (rows ! k) i \<noteq> []" unfolding row_valid_def by blast
        then show "xs ! k \<noteq> []" using k by (simp add: xs' column_of_def)
      qed
    qed
  qed
  have "mark_valid d important_columns ?v =
          Inr (map (\<lambda>k. ?v ! k \<and>
                 (\<forall>c\<in>set important_columns. \<forall>xs. d c = Some (StrCol xs) \<longrightarrow> xs ! k \<noteq> []))
               [0..<length ?v])"
    by (rule mark_valid_ok [OF pre])
  also have "\<dots> = Inr (map (\<lambda>k. row_valid hs (rows ! k)) [0..<length rows])"
    using eq by simp
  also have "\<dots> = Inr (map (row_valid hs) rows)"
    by (simp add: map_upt_nth)
  finally show ?thesis .
qed


lemma clean_data_ok:
  assumes dist: "distinct (headers m)"
    and none: "\<forall>h. h \<notin> set (headers m) \<longrightarrow> data m h = None"
    and cols: "\<forall>i<length (headers m). data m (headers m ! i) = Some (StrCol (column_of rows i))"
    and rc: "row_count m = length rows"
  shows "\<exists>m'. clean_data pf m = Inr m' \<and> headers m' = headers m \<and>
           row_count m' = length (filter (row_valid (headers m)) rows) \<and>
           (\<forall>h. h \<notin> set (headers m) \<longrightarrow> data m' h = None) \<and>
           (\<forall>i<length (headers m). data m' (headers m ! i) =
               Some (final_col pf (headers m ! i)
                      (column_of (filter (row_valid (headers m)) rows) i)))"
proof -
  let ?hs = "headers m"
  let ?valid = "map (row_valid ?hs) rows"
  let ?kept = "filter (row_valid ?hs) rows"
  have mv: "mark_valid (data m) important_columns (replicate (row_count m) True) = Inr ?valid"
    using mark_valid_table [OF dist none cols] rc by simp
  have cnt: "count_true ?valid = length ?kept" by (rule count_true_map)
  define m1 where "m1 = (if int (row_count m) - int (count_true ?valid) > 0
     then m\<lparr>data := (\<lambda>h. if h \<in> set ?hs then map_option (\<lambda>c. col_select c ?valid) (data m h)
                           else data m h),
            row_count := count_true ?valid\<rparr>
     else m)"
  have pre: "\<forall>h\<in>set ?hs. \<exists>c. data m h = Some c \<and> col_len c = length ?valid"
  proof
    fix h assume "h \<in> set ?hs"
    then obtain i where i: "i < length ?hs" "?hs ! i = h" by (auto simp: in_set_conv_nth)
    with cols have "data m h = Some (StrCol (column_of rows i))" by auto
    then show "\<exists>c. data m h = Some c \<and> col_len c = length ?valid"
      by (simp add: col_len_def column_of_def)
  qed
  have kr: "keep_rows ?valid ?hs (data m) =
      Inr (\<lambda>h. if h \<in> set ?hs then map_option (\<lambda>c. col_select c ?valid) (data m h)
               else data m h)"
    by (rule keep_rows_ok [OF dist pre])
  have cd: "clean_data pf m =
      Inr (m1\<lparr>data := convert_numeric pf numeric_columns (data m1)\<rparr>)"
    unfolding clean_data_def mv m1_def by (simp add: kr Let_def)
  have h1: "headers m1 = ?hs" by (simp add: m1_def)
  have r1: "row_count m1 = length ?kept"
  proof (cases "int (row_count m) - int (count_true ?valid) > 0")
    case True
    then show ?thesis by (simp add: m1_def cnt)
  next
    case False
    have "length ?kept \<le> length rows" by simp
    with False have "length ?kept = length rows" by (simp add: cnt rc)
    with False show ?thesis by (simp add: m1_def rc)
  qed
  have n1: "\<forall>h. h \<notin> set ?hs \<longrightarrow> data m1 h = None"
    using none by (simp add: m1_def)
  have c1: "\<forall>i<length ?hs. data m1 (?hs ! i) = Some (StrCol (column_of ?kept i))"
  proof (intro allI impI)
    fix i assume i: "i < length ?hs"
    with cols have c: "data m (?hs ! i) = Some (StrCol (column_of rows i))" by blast
    show "data m1 (?hs ! i) = Some (StrCol (column_of ?kept i))"
    proof (cases "int (row_count m) - int (count_true ?valid) > 0")
      case True
      have "select (column_of rows i) ?valid = column_of ?kept i"
        unfolding column_of_def by (rule select_map_filter)
      with True i c show ?thesis by (simp add: m1_def col_select_def)
    next
      case False
      have "length ?kept \<le> length rows" by simp
      with False have "length ?kept = length rows" by (simp add: cnt rc)
      then have "?kept = rows" by (rule filter_all_length)
      with False c show ?thesis by (simp add: m1_def)
    qed
  qed
  have dn: "distinct numeric_columns" by (simp add: numeric_columns_def)
  have cn: "convert_numeric pf numeric_columns (data m1) =
     (\<lambda>h. if h \<in> set numeric_columns then map_option (safe_convert_to_float pf) (data m1 h)
          else data m1 h)"
    by (rule convert_numeric_ok [OF dn])
  have f1: "\<forall>h. h \<notin> set ?hs \<longrightarrow>
              convert_numeric pf numeric_columns (data m1) h = None"
    using n1 by (simp add: cn)
  have f2: "\<forall>i<length ?hs. convert_numeric pf numeric_columns (data m1) (?hs ! i) =
               Some (final_col pf (?hs ! i) (column_of ?kept i))"
    using c1 by (simp add: cn final_col_def safe_convert_to_float_def)
  show ?thesis using cd h1 r1 f1 f2 by simp
qed

lemma load_csv_ok:
  assumes hs: "hs = split_line l" and dist: "distinct hs"
  shows "\<exists>m. load_csv pf (Some (l # ls)) init_model = Inr m \<and> headers m = hs \<and>
           row_count m = length (filter (row_valid hs) (raw_rows ls)) \<and>
           (\<forall>h. h \<notin> set hs \<longrightarrow> data m h = None) \<and>
           (\<forall>i<length hs. data m (hs ! i) =
               Some (final_col pf (hs ! i) (column_of (filter (row_valid hs) (raw_rows ls)) i)))"
proof -
  from read_table_ok [OF hs dist, of ls]
  obtain m0 where rt: "read_table (Some (l # ls)) init_model = Inr m0"
    and h0: "headers m0 = hs" and r0: "row_count m0 = length ls"
    and n0: "\<forall>h. h \<notin> set hs \<longrightarrow> data m0 h = None"
    and c0: "\<forall>i<length hs. data m0 (hs ! i) = Some (StrCol (column_of (raw_rows ls) i))"
    by blast
  have "\<forall>h\<in>set (headers m0). data m0 h \<noteq> None"
    using c0 by (auto simp: h0 in_set_conv_nth)
  then have cv: "convert_to_numpy m0 = Inr m0" by (rule convert_to_numpy_ok)
  have d0: "distinct (headers m0)" using dist h0 by simp
  have n0': "\<forall>h. h \<notin> set (headers m0) \<longrightarrow> data m0 h = None" using n0 h0 by simp
  have c0': "\<forall>i<length (headers m0). data m0 (headers m0 ! i) =
               Some (StrCol (column_of (raw_rows ls) i))" using c0 h0 by simp
  have r0': "row_count m0 = length (raw_rows ls)" using r0 by (simp add: raw_rows_def)
  from clean_data_ok [OF d0 n0' c0' r0', of pf]
  obtain m where "clean_data pf m0 = Inr m" "headers m = headers m0"
      "row_count m = length (filter (row_valid (headers m0)) (raw_rows ls))"
      "\<forall>h. h \<notin> set (headers m0) \<longrightarrow> data m h = None"
      "\<forall>i<length (headers m0). data m (headers m0 ! i) =
               Some (final_col pf (headers m0 ! i)
                      (column_of (filter (row_valid (headers m0)) (raw_rows ls)) i))"
    by blast
  then show ?thesis using rt cv h0 by (simp add: load_csv_def)
qed

section \<open>Reading a file with any header\<close>

lemma extend_extend: "extend (extend c xs) ys = extend c (xs @ ys)"
  by (induction c xs rule: extend.induct) simp_all

lemma extend_Nil: "extend c [] = c"
  by (induction c "[] :: string list" rule: extend.induct) simp_all

lemma store_row_any:
  "(\<forall>p\<in>set ps. \<exists>xs. d (snd p) = Some (StrCol xs)) \<Longrightarrow>
   \<exists>d'. store_row vals ps d = Inr d' \<and>
     (\<forall>h. d' h = extend (d h) (map (\<lambda>p. cell_at vals (fst p)) (filter (\<lambda>p. snd p = h) ps)))"
proof (induction ps arbitrary: d)
  case Nil
  then show ?case by (simp add: extend_Nil)
next
  case (Cons p ps)
  obtain i h0 where p: "p = (i, h0)" by (cases p)
  from Cons.prems obtain xs where xs: "d h0 = Some (StrCol xs)" by (auto simp: p)
  let ?d1 = "d(h0 \<mapsto> StrCol (xs @ [cell_at vals i]))"
  have step: "store_row vals (p # ps) d = store_row vals ps ?d1"
    by (simp add: p append_to_def xs)
  have pre: "\<forall>q\<in>set ps. \<exists>ys. ?d1 (snd q) = Some (StrCol ys)"
    using Cons.prems by auto
  from Cons.IH [OF pre]
  obtain d' where d': "store_row vals ps ?d1 = Inr d'"
    and v: "\<forall>h. d' h = extend (?d1 h)
               (map (\<lambda>p. cell_at vals (fst p)) (filter (\<lambda>p. snd p = h) ps))"
    by blast
  have "\<forall>h. d' h = extend (d h)
               (map (\<lambda>p. cell_at vals (fst p)) (filter (\<lambda>p. snd p = h) (p # ps)))"
  proof
    fix h
    show "d' h = extend (d h)
               (map (\<lambda>p. cell_at vals (fst p)) (filter (\<lambda>p. snd p = h) (p # ps)))"
    proof (cases "h = h0")
      case True
      have "d' h0 = extend (extend (d h0) [cell_at vals i])
               (map (\<lambda>p. cell_at vals (fst p)) (filter (\<lambda>p. snd p = h0) ps))"
        using v xs by simp
      then show ?thesis using True by (simp add: extend_extend p)
    next
      case False
      then show ?thesis using v by (simp add: p)
    qed
  qed
  with step d' show ?case by simp
qed

lemma enumerate_positions:
  "map fst (filter (\<lambda>p. snd p = h) (enumerate 0 hs)) = positions hs h"
proof -
  have e: "enumerate 0 hs = map (\<lambda>i. (i, hs ! i)) [0..<length hs]"
    by (rule nth_equalityI) (simp_all add: nth_enumerate_eq)
  show ?thesis
    unfolding e positions_def by (simp add: filter_map comp_def)
qed

lemma store_rows_any:
  "(\<forall>h\<in>set hs. \<exists>xs. d h = Some (StrCol xs)) \<Longrightarrow>
   \<exists>d'. store_rows hs ls d = Inr d' \<and>
     (\<forall>h. d' h = extend (d h)
        (concat (map (\<lambda>line. map (\<lambda>i. cell_at (split_line line) i) (positions hs h)) ls)))"
proof (induction ls arbitrary: d)
  case Nil
  then show ?case by (simp add: extend_Nil)
next
  case (Cons l ls)
  let ?vals = "split_line l"
  have pre: "\<forall>p\<in>set (enumerate 0 hs). \<exists>xs. d (snd p) = Some (StrCol xs)"
    using Cons.prems by (auto simp: in_set_enumerate_eq)
  from store_row_any [OF pre, of ?vals]
  obtain d1 where d1: "store_row ?vals (enumerate 0 hs) d = Inr d1"
    and v1: "\<forall>h. d1 h = extend (d h)
               (map (\<lambda>p. cell_at ?vals (fst p)) (filter (\<lambda>p. snd p = h) (enumerate 0 hs)))"
    by blast
  have v1': "\<forall>h. d1 h = extend (d h) (map (\<lambda>i. cell_at ?vals i) (positions hs h))"
  proof
    fix h
    have "map (\<lambda>p. cell_at ?vals (fst p)) (filter (\<lambda>p. snd p = h) (enumerate 0 hs)) =
          map (\<lambda>i. cell_at ?vals i) (map fst (filter (\<lambda>p. snd p = h) (enumerate 0 hs)))"
      by (simp add: comp_def)
    then show "d1 h = extend (d h) (map (\<lambda>i. cell_at ?vals i) (positions hs h))"
      using v1 by (simp only: enumerate_positions)
  qed
  have pre1: "\<forall>h\<in>set hs. \<exists>xs. d1 h = Some (StrCol xs)"
  proof
    fix h assume "h \<in> set hs"
    with Cons.prems obtain xs where "d h = Some (StrCol xs)" by blast
    then show "\<exists>xs. d1 h = Some (StrCol xs)" using v1' by simp
  qed
  from Cons.IH [OF pre1]
  obtain d' where d': "store_rows hs ls d1 = Inr d'"
    and v: "\<forall>h. d' h = extend (d1 h)
        (concat (map (\<lambda>line. map (\<lambda>i. cell_at (split_line line) i) (positions hs h)) ls))"
    by blast
  have "\<forall>h. d' h = extend (d h)
        (concat (map (\<lambda>line. map (\<lambda>i. cell_at (split_line line) i) (positions hs h)) (l # ls)))"
    using v v1' by (simp add: extend_extend)
  moreover have "store_rows hs (l # ls) d = Inr d'" using d1 d' by simp
  ultimately show ?case by blast
qed

lemma read_table_any:
  "\<exists>m. read_table (Some (l # ls)) init_model = Inr m \<and> headers m = split_line l \<and>
       row_count m = length ls \<and>
       (\<forall>h. h \<notin> set (split_line l) \<longrightarrow> data m h = None) \<and>
       (\<forall>h\<in>set (split_line l). data m h =
          Some (StrCol (concat (map (\<lambda>line. map (\<lambda>i. cell_at (split_line line) i)
                                            (positions (split_line l) h)) ls))))"
proof -
  let ?hs = "split_line l"
  let ?d0 = "fold (\<lambda>header d. d(header \<mapsto> StrCol [])) ?hs (data init_model)"
  have d0: "?d0 = (\<lambda>k. if k \<in> set ?hs then Some (StrCol []) else None)"
    by (simp add: fold_init_headers init_model_def)
  have pre: "\<forall>h\<in>set ?hs. \<exists>xs. ?d0 h = Some (StrCol xs)" by (simp add: d0)
  from store_rows_any [OF pre, of ls]
  obtain d' where d': "store_rows ?hs ls ?d0 = Inr d'"
    and v: "\<forall>h. d' h = extend (?d0 h)
        (concat (map (\<lambda>line. map (\<lambda>i. cell_at (split_line line) i) (positions ?hs h)) ls))"
    by blast
  have a: "read_table (Some (l # ls)) init_model =
             Inr (init_model\<lparr>data := d', headers := ?hs, row_count := length ls\<rparr>)"
    using d' by (simp add: read_table_def Let_def)
  have b: "\<forall>h. h \<notin> set ?hs \<longrightarrow> d' h = None" using v by (simp add: d0)
  have c: "\<forall>h\<in>set ?hs. d' h =
          Some (StrCol (concat (map (\<lambda>line. map (\<lambda>i. cell_at (split_line line) i)
                                            (positions ?hs h)) ls)))"
    using v by (simp add: d0)
  show ?thesis using a b c by simp
qed
section \<open>Queries leave the model unchanged; their values\<close>

lemma frame_ret: "frame (ret x)"
  by (simp add: frame_def ret_def)

lemma frame_lift: "frame (lift r)"
  by (simp add: frame_def lift_def)

lemma frame_bnd: "frame p \<Longrightarrow> (\<And>x. frame (f x)) \<Longrightarrow> frame (bnd p f)"
  by (auto simp: frame_def bnd_def split: prod.splits sum.splits) (metis snd_conv)+

lemma frame_for_each: "(\<And>x. frame (f x)) \<Longrightarrow> frame (for_each f xs)"
  by (induction xs) (auto intro!: frame_ret frame_bnd)

lemma frame_let: "(\<And>x. frame (f x)) \<Longrightarrow> frame (let x = v in f x)"
  by simp

lemma frame_case_prod: "(\<And>a b. frame (f a b)) \<Longrightarrow> frame (case_prod f x)"
  by (cases x) simp

lemma frame_data_item: "frame (data_item key)"
  by (simp add: frame_def data_item_def)

lemma frame_get_row_count: "frame get_row_count"
  by (simp add: frame_def get_row_count_def)

lemma frame_get_column: "frame (get_column name)"
  by (simp add: frame_def get_column_def)

lemma frame_get_unique_values: "frame (get_unique_values name)"
  by (simp add: frame_def get_unique_values_def)

lemma frame_filter_by_value: "frame (filter_by_value name v)"
  by (simp add: frame_def filter_by_value_def)

lemmas frame_intros = frame_ret frame_lift frame_bnd frame_for_each frame_let frame_case_prod
  frame_data_item frame_get_row_count frame_get_column frame_get_unique_values
  frame_filter_by_value

lemma frame_get_summary: "frame get_summary"
  unfolding get_summary_def by (intro frame_intros)

lemma frame_get_sales_by_branch: "frame get_sales_by_branch"
  unfolding get_sales_by_branch_def by (intro frame_intros)

lemma frame_get_sales_by_city: "frame get_sales_by_city"
  unfolding get_sales_by_city_def by (intro frame_intros)

lemma frame_get_sales_by_product_line: "frame get_sales_by_product_line"
  unfolding get_sales_by_product_line_def by (intro frame_intros)

lemma frame_get_payment_method_distribution: "frame get_payment_method_distribution"
  unfolding get_payment_method_distribution_def by (intro frame_intros)

lemma frame_get_customer_type_analysis: "frame get_customer_type_analysis"
  unfolding get_customer_type_analysis_def by (intro frame_intros)

lemma frame_get_gender_analysis: "frame get_gender_analysis"
  unfolding get_gender_analysis_def by (intro frame_intros)

lemma frame_get_rating_distribution: "frame get_rating_distribution"
  unfolding get_rating_distribution_def by (intro frame_intros)

lemma frame_get_monthly_sales_trend: "frame get_monthly_sales_trend"
  unfolding get_monthly_sales_trend_def by (intro frame_intros)

lemma frame_get_top_products: "frame (get_top_products n)"
  unfolding get_top_products_def
  by (intro frame_intros frame_get_sales_by_product_line)

lemma frame_get_average_basket_size: "frame get_average_basket_size"
  unfolding get_average_basket_size_def by (intro frame_intros)

lemma frame_get_average_transaction_value: "frame get_average_transaction_value"
  unfolding get_average_transaction_value_def by (intro frame_intros)

lemma frame_get_kpis: "frame get_kpis"
  unfolding get_kpis_def by (intro frame_intros)

text \<open>Values of framed programs.\<close>

lemma fst_bnd:
  "frame p \<Longrightarrow> fst (bnd p f m) = ebind (fst (p m)) (\<lambda>x. fst (f x m))"
  by (auto simp: frame_def bnd_def ebind_def split: prod.splits sum.splits) (metis snd_conv)+

lemma fst_ret [simp]: "fst (ret x m) = Inr x"
  by (simp add: ret_def)

lemma fst_lift [simp]: "fst (lift r m) = r"
  by (simp add: lift_def)

















section \<open>Results on loading\<close>


text \<open>
  Claim C8. When the data lines are parsed, each line is stripped and split on the comma.
  The list stored under a header name receives from every data line, for each position
  \<open>i\<close> of the header that carries the name, \<open>values[i]\<close> when the line has that field
  and the empty string otherwise: a short line is padded and never rejected. A field
  beyond the header count goes nowhere: the dictionary has no key besides the header
  names, and only header positions are read. \<open>row_count\<close> before cleaning is the number
  of data lines. With distinct header names, the column at header position \<open>i\<close> is the
  list of the \<open>values[i]\<close>, one per data line.
\<close>

theorem rows_padded_and_counted:
  "\<exists>m. read_table (Some (l # ls)) init_model = Inr m \<and>
       headers m = split_line l \<and>
       row_count m = length ls \<and>
       (\<forall>h. h \<notin> set (split_line l) \<longrightarrow> data m h = None) \<and>
       (\<forall>h\<in>set (split_line l).
           data m h =
             Some (StrCol (concat (map (\<lambda>line. map (\<lambda>i. if i < length (split_line line)
                                                         then split_line line ! i else [])
                                               (positions (split_line l) h)) ls)))) \<and>
       (distinct (split_line l) \<longrightarrow>
          (\<forall>i<length (split_line l).
               data m (split_line l ! i) =
                 Some (StrCol (map (\<lambda>line. if i < length (split_line line)
                                            then split_line line ! i else []) ls))))"
proof -
  from read_table_any [of l ls]
  obtain m where m: "read_table (Some (l # ls)) init_model = Inr m" "headers m = split_line l"
    "row_count m = length ls" "\<forall>h. h \<notin> set (split_line l) \<longrightarrow> data m h = None"
    "\<forall>h\<in>set (split_line l). data m h =
          Some (StrCol (concat (map (\<lambda>line. map (\<lambda>i. cell_at (split_line line) i)
                                            (positions (split_line l) h)) ls)))"
    by blast
  have any: "\<forall>h\<in>set (split_line l).
           data m h =
             Some (StrCol (concat (map (\<lambda>line. map (\<lambda>i. if i < length (split_line line)
                                                         then split_line line ! i else [])
                                               (positions (split_line l) h)) ls)))"
    using m(5) by (simp add: cell_at_def)
  have dist: "distinct (split_line l) \<longrightarrow>
          (\<forall>i<length (split_line l).
               data m (split_line l ! i) =
                 Some (StrCol (map (\<lambda>line. if i < length (split_line line)
                                            then split_line line ! i else []) ls)))"
  proof
    assume d: "distinct (split_line l)"
    from read_table_ok [OF refl d, of ls]
    obtain m' where m': "read_table (Some (l # ls)) init_model = Inr m'"
      "\<forall>i<length (split_line l). data m' (split_line l ! i) =
          Some (StrCol (column_of (raw_rows ls) i))"
      by blast
    from m(1) m'(1) have eq: "m' = m" by simp
    have "\<And>i. column_of (raw_rows ls) i =
       map (\<lambda>line. if i < length (split_line line) then split_line line ! i else []) ls"
      by (simp add: column_of_def raw_rows_def cell_at_def comp_def)
    with m'(2) show "\<forall>i<length (split_line l).
               data m (split_line l ! i) =
                 Some (StrCol (map (\<lambda>line. if i < length (split_line line)
                                            then split_line line ! i else []) ls))"
      unfolding eq by simp
  qed
  show ?thesis
    by (rule exI [of _ m]) (intro conjI m(1) m(2) m(3) m(4) any dist)
qed

theorem rows_padded_and_counted_witness:
  "distinct (split_line ''a,b'') \<and>
   (\<exists>m. read_table (Some [''a,b'', ''1'', ''2,3,4'']) init_model = Inr m \<and>
        headers m = [''a'', ''b''] \<and> row_count m = 2 \<and>
        data m ''a'' = Some (StrCol [''1'', ''2'']) \<and>
        data m ''b'' = Some (StrCol ['''', ''3'']) \<and>
        data m ''c'' = None) \<and>
   (\<exists>m. read_table (Some [''a,b,a'', ''1'', ''2,3,4'']) init_model = Inr m \<and>
        headers m = [''a'', ''b'', ''a''] \<and> row_count m = 2 \<and>
        data m ''a'' = Some (StrCol [''1'', '''', ''2'', ''4'']) \<and>
        data m ''b'' = Some (StrCol ['''', ''3'']))"
proof -
  have d: "distinct (split_line ''a,b'')" by code_simp
  from rows_padded_and_counted [of "''a,b''" "[''1'', ''2,3,4'']"]
  obtain m where m: "read_table (Some [''a,b'', ''1'', ''2,3,4'']) init_model = Inr m"
    by blast
  have "map_sum id (\<lambda>m. (headers m, row_count m, data m ''a'', data m ''b'', data m ''c''))
          (read_table (Some [''a,b'', ''1'', ''2,3,4'']) init_model) =
        Inr ([''a'', ''b''], 2, Some (StrCol [''1'', ''2'']), Some (StrCol ['''', ''3'']), None)"
    by code_simp
  with m have v: "headers m = [''a'', ''b''] \<and> row_count m = 2 \<and>
        data m ''a'' = Some (StrCol [''1'', ''2'']) \<and>
        data m ''b'' = Some (StrCol ['''', ''3'']) \<and> data m ''c'' = None"
    by simp
  from rows_padded_and_counted [of "''a,b,a''" "[''1'', ''2,3,4'']"]
  obtain m2 where m2: "read_table (Some [''a,b,a'', ''1'', ''2,3,4'']) init_model = Inr m2"
    by blast
  have "map_sum id (\<lambda>m. (headers m, row_count m, data m ''a'', data m ''b''))
          (read_table (Some [''a,b,a'', ''1'', ''2,3,4'']) init_model) =
        Inr ([''a'', ''b'', ''a''], 2, Some (StrCol [''1'', '''', ''2'', ''4'']),
             Some (StrCol ['''', ''3'']))"
    by code_simp
  with m2 have v2: "headers m2 = [''a'', ''b'', ''a''] \<and> row_count m2 = 2 \<and>
        data m2 ''a'' = Some (StrCol [''1'', '''', ''2'', ''4'']) \<and>
        data m2 ''b'' = Some (StrCol ['''', ''3''])"
    by simp
  from d m v m2 v2 show ?thesis by blast
qed

lemma row_valid_eq_spec:
  assumes "set important_columns \<subseteq> set hs" and dist: "distinct hs"
  shows "row_valid hs vals = spec_row_valid hs vals"
proof
  assume rv: "row_valid hs vals"
  show "spec_row_valid hs vals"
    unfolding spec_row_valid_def
  proof
    fix c assume c: "c \<in> set important_columns"
    with assms have "c \<in> set hs" by blast
    then obtain i where i: "i < length hs" "hs ! i = c" by (auto simp: in_set_conv_nth)
    with rv c have "cell_at vals i \<noteq> []" unfolding row_valid_def by blast
    with i show "\<exists>i<length hs. hs ! i = c \<and> cell_at vals i \<noteq> []" by blast
  qed
next
  assume sv: "spec_row_valid hs vals"
  show "row_valid hs vals"
    unfolding row_valid_def
  proof (intro ballI allI impI)
    fix c i assume c: "c \<in> set important_columns" and i: "i < length hs" "hs ! i = c"
    from sv c obtain j where j: "j < length hs" "hs ! j = c" "cell_at vals j \<noteq> []"
      unfolding spec_row_valid_def by blast
    from i j have "hs ! i = hs ! j" by simp
    with dist i(1) j(1) have "i = j" by (rule distinct_headers_index)
    with j show "cell_at vals i \<noteq> []" by simp
  qed
qed

text \<open>
  Claim C1, as amended. For every file with at least a header line and distinct header
  names, loading succeeds, and the rows of the resulting table are exactly the parsed data
  lines that have a non-empty value in every required column (Total, Quantity, Rating,
  Branch) that occurs in the header: a required column that is absent from the file is not
  tested. The same rows, in their original order, make up every column (\<open>filter\<close> keeps
  the order), and \<open>row_count\<close> is their number. When all four required columns are in
  the header, the test is the one the specification words: each required column is present
  and non-empty for the row.
\<close>

theorem retained_rows:
  assumes "distinct (split_line l)"
  shows "\<exists>m. load_csv pf (Some (l # ls)) init_model = Inr m \<and>
           headers m = split_line l \<and>
           row_count m = length (filter (row_valid (split_line l)) (map split_line ls)) \<and>
           (\<forall>h. h \<notin> set (split_line l) \<longrightarrow> data m h = None) \<and>
           (\<forall>i<length (split_line l).
               data m (split_line l ! i) =
                 Some (final_col pf (split_line l ! i)
                        (map (\<lambda>vals. cell_at vals i)
                           (filter (row_valid (split_line l)) (map split_line ls))))) \<and>
           (set important_columns \<subseteq> set (split_line l) \<longrightarrow>
              (\<forall>vals. row_valid (split_line l) vals = spec_row_valid (split_line l) vals))"
proof -
  from load_csv_ok [OF refl assms, of pf ls]
  obtain m where m: "load_csv pf (Some (l # ls)) init_model = Inr m"
    "headers m = split_line l"
    "row_count m = length (filter (row_valid (split_line l)) (raw_rows ls))"
    "\<forall>h. h \<notin> set (split_line l) \<longrightarrow> data m h = None"
    "\<forall>i<length (split_line l). data m (split_line l ! i) =
        Some (final_col pf (split_line l ! i)
               (column_of (filter (row_valid (split_line l)) (raw_rows ls)) i))"
    by blast
  have spec: "set important_columns \<subseteq> set (split_line l) \<longrightarrow>
              (\<forall>vals. row_valid (split_line l) vals = spec_row_valid (split_line l) vals)"
    using row_valid_eq_spec [OF _ assms] by blast
  from m spec show ?thesis
    unfolding raw_rows_def column_of_def by blast
qed

theorem retained_rows_witness:
  "distinct (split_line ''Branch,Total,Quantity,Rating,City'') \<and>
   (\<exists>m. load_csv py_float
          (Some [''Branch,Total,Quantity,Rating,City'', ''A,5,1,7,X'', ''B,,2,8,Y'', ''C,6,3,9'',
                 ''D,1,1''])
          init_model = Inr m \<and>
        row_count m = 2 \<and>
        data m ''Branch'' = Some (StrCol [''A'', ''C'']) \<and>
        data m ''Total'' = Some (NumCol [5, 6]) \<and>
        data m ''City'' = Some (StrCol [''X'', []]))"
proof -
  let ?l = "''Branch,Total,Quantity,Rating,City''"
  let ?ls = "[''A,5,1,7,X'', ''B,,2,8,Y'', ''C,6,3,9'', ''D,1,1'']"
  have d: "distinct (split_line ?l)" by code_simp
  from retained_rows [OF d, of py_float ?ls]
  obtain m where m: "load_csv py_float (Some (?l # ?ls)) init_model = Inr m"
    by blast
  have "map_sum id (\<lambda>m. (row_count m, data m ''Branch'', data m ''Total'', data m ''City''))
          (load_csv py_float (Some (?l # ?ls)) init_model) =
        Inr (2, Some (StrCol [''A'', ''C'']), Some (NumCol [5, 6]), Some (StrCol [''X'', []]))"
    by code_simp
  with m have "row_count m = 2 \<and> data m ''Branch'' = Some (StrCol [''A'', ''C'']) \<and>
        data m ''Total'' = Some (NumCol [5, 6]) \<and> data m ''City'' = Some (StrCol [''X'', []])"
    by simp
  with d m show ?thesis by blast
qed

text \<open>
  Claim C1 as stated fails: in a file without a Branch column no row has Branch present
  and non-empty, yet the row is retained.
\<close>

theorem retained_without_branch:
  "on_file [''Total,Quantity,Rating'', ''5,1,7''] get_row_count = Inr 1 \<and>
   on_file [''Total,Quantity,Rating'', ''5,1,7''] (get_column ''Total'') = Inr (NumCol [5]) \<and>
   \<not> spec_row_valid (split_line ''Total,Quantity,Rating'') (split_line ''5,1,7'')"
proof -
  have a: "on_file [''Total,Quantity,Rating'', ''5,1,7''] get_row_count = Inr 1"
    by code_simp
  have b: "on_file [''Total,Quantity,Rating'', ''5,1,7''] (get_column ''Total'') = Inr (NumCol [5])"
    by code_simp
  have h: "split_line ''Total,Quantity,Rating'' = [''Total'', ''Quantity'', ''Rating'']"
    by code_simp
  have c: "\<not> spec_row_valid (split_line ''Total,Quantity,Rating'') (split_line ''5,1,7'')"
    unfolding h spec_row_valid_def important_columns_def
    by (auto simp: less_Suc_eq numeral_3_eq_3)
  show ?thesis using a b c by blast
qed

text \<open>
  Claim C7, as amended. Loading fails when the file cannot be read or has no line at all.
  For every file with at least a header line and distinct header names, loading succeeds
  whatever the values are, and every numeric column of the result holds, for each retained
  row, the parsed number, or 0.0 where the text does not parse (empty, not a number, or
  padded because the line was short). With a repeated header name the load can fail.
\<close>

theorem load_defaults_and_failures:
  "load_csv pf None init_model = Inl FileNotFoundError \<and>
   load_csv pf (Some []) init_model = Inl IndexError \<and>
   (distinct (split_line l) \<longrightarrow>
      (\<exists>m. load_csv pf (Some (l # ls)) init_model = Inr m \<and>
           (\<forall>i<length (split_line l). split_line l ! i \<in> set numeric_columns \<longrightarrow>
               data m (split_line l ! i) =
                 Some (NumCol (map (\<lambda>vals. case pf (cell_at vals i) of None \<Rightarrow> 0 | Some x \<Rightarrow> x)
                                 (filter (row_valid (split_line l)) (map split_line ls)))))))"
proof (intro conjI impI)
  show "load_csv pf None init_model = Inl FileNotFoundError"
    by (simp add: load_csv_def read_table_def)
  show "load_csv pf (Some []) init_model = Inl IndexError"
    by (simp add: load_csv_def read_table_def)
next
  assume d: "distinct (split_line l)"
  from load_csv_ok [OF refl d, of pf ls]
  obtain m where m: "load_csv pf (Some (l # ls)) init_model = Inr m"
    "\<forall>i<length (split_line l). data m (split_line l ! i) =
        Some (final_col pf (split_line l ! i)
               (column_of (filter (row_valid (split_line l)) (raw_rows ls)) i))"
    by blast
  have "\<forall>i<length (split_line l). split_line l ! i \<in> set numeric_columns \<longrightarrow>
               data m (split_line l ! i) =
                 Some (NumCol (map (\<lambda>vals. case pf (cell_at vals i) of None \<Rightarrow> 0 | Some x \<Rightarrow> x)
                                 (filter (row_valid (split_line l)) (map split_line ls))))"
  proof (intro allI impI)
    fix i assume i: "i < length (split_line l)" and n: "split_line l ! i \<in> set numeric_columns"
    from m(2) i have "data m (split_line l ! i) =
        Some (final_col pf (split_line l ! i)
               (column_of (filter (row_valid (split_line l)) (raw_rows ls)) i))" by blast
    with n show "data m (split_line l ! i) =
                 Some (NumCol (map (\<lambda>vals. case pf (cell_at vals i) of None \<Rightarrow> 0 | Some x \<Rightarrow> x)
                                 (filter (row_valid (split_line l)) (map split_line ls))))"
      by (simp add: final_col_def column_of_def raw_rows_def to_float_def comp_def)
  qed
  with m(1) show "\<exists>m. load_csv pf (Some (l # ls)) init_model = Inr m \<and>
           (\<forall>i<length (split_line l). split_line l ! i \<in> set numeric_columns \<longrightarrow>
               data m (split_line l ! i) =
                 Some (NumCol (map (\<lambda>vals. case pf (cell_at vals i) of None \<Rightarrow> 0 | Some x \<Rightarrow> x)
                                 (filter (row_valid (split_line l)) (map split_line ls)))))"
    by blast
qed

theorem load_defaults_and_failures_witness:
  "distinct (split_line ''Total,City'') \<and>
   load_csv py_float None init_model = Inl FileNotFoundError \<and>
   load_csv py_float (Some []) init_model = Inl IndexError \<and>
   (\<exists>m. load_csv py_float (Some [''Total,City'', ''abc,X'', '',Y'', ''7'']) init_model = Inr m \<and>
        data m ''Total'' = Some (NumCol [0, 7]) \<and>
        data m ''City'' = Some (StrCol [''X'', []]))"
proof -
  let ?l = "''Total,City''"
  let ?ls = "[''abc,X'', '',Y'', ''7'']"
  have d: "distinct (split_line ?l)" by code_simp
  from load_defaults_and_failures [of py_float ?l ?ls] d
  obtain m where f: "load_csv py_float None init_model = Inl FileNotFoundError"
    "load_csv py_float (Some []) init_model = Inl IndexError"
    and m: "load_csv py_float (Some (?l # ?ls)) init_model = Inr m"
    by blast
  have "map_sum id (\<lambda>m. (data m ''Total'', data m ''City''))
          (load_csv py_float (Some (?l # ?ls)) init_model) =
        Inr (Some (NumCol [0, 7]), Some (StrCol [''X'', []]))"
    by code_simp
  with m have "data m ''Total'' = Some (NumCol [0, 7]) \<and> data m ''City'' = Some (StrCol [''X'', []])"
    by simp
  with d f m show ?thesis by blast
qed

text \<open>
  Claim C7 as stated fails: this file is neither missing nor empty, and no value of it
  fails to parse, yet \<^verbatim>\<open>load_csv\<close> returns \<^verbatim>\<open>False\<close>. The name Total occurs twice in
  the header, so its list gets two values per line and the validity mask of length
  \<open>row_count\<close> cannot be combined with it.
\<close>

theorem load_fails_on_repeated_header:
  "load_csv py_float (Some [''Total,Total'', ''1,2'', ''3,4'']) init_model = Inl ValueError"
proof -
  have "map_sum id row_count
          (load_csv py_float (Some [''Total,Total'', ''1,2'', ''3,4'']) init_model) =
        Inl ValueError"
    by code_simp
  then show ?thesis
    by (cases "load_csv py_float (Some [''Total,Total'', ''1,2'', ''3,4'']) init_model") simp_all
qed

section \<open>Results on the queries\<close>

lemma fst_data_item [simp]: "fst (data_item key m) = item (data m) key"
  by (simp add: data_item_def)

lemma fst_get_row_count [simp]: "fst (get_row_count m) = Inr (row_count m)"
  by (simp add: get_row_count_def)

lemma fst_get_column [simp]:
  "fst (get_column name m) = Inr (case data m name of None \<Rightarrow> NumCol [] | Some c \<Rightarrow> c)"
  by (simp add: get_column_def)

lemma fst_get_unique_values [simp]:
  "fst (get_unique_values name m) =
     Inr (np_unique (case data m name of None \<Rightarrow> NumCol [] | Some c \<Rightarrow> c))"
  by (simp add: get_unique_values_def)





lemma on_file_loaded:
  "load_csv py_float (Some file_lines) init_model = Inr m \<Longrightarrow>
   on_file file_lines query = fst (query m)"
  by (simp add: on_file_def)









text \<open>
  Claim C10. Every query of the model and every aggregation of the view returns the model
  it was given, whether it returns a result or raises: headers, columns and row count
  after the call are those before it. That includes the grouped queries, which call
  \<open>filter_by_value\<close> for every group.
\<close>

theorem queries_leave_table_unchanged:
  "snd (get_column name m) = m \<and>
   snd (get_unique_values name m) = m \<and>
   snd (filter_by_value name v m) = m \<and>
   snd (get_summary m) = m \<and>
   snd (get_sales_by_branch m) = m \<and>
   snd (get_sales_by_city m) = m \<and>
   snd (get_sales_by_product_line m) = m \<and>
   snd (get_payment_method_distribution m) = m \<and>
   snd (get_customer_type_analysis m) = m \<and>
   snd (get_gender_analysis m) = m \<and>
   snd (get_rating_distribution m) = m \<and>
   snd (get_monthly_sales_trend m) = m \<and>
   snd (get_top_products n m) = m \<and>
   snd (get_average_basket_size m) = m \<and>
   snd (get_average_transaction_value m) = m \<and>
   snd (get_kpis m) = m"
  using frame_get_column [of name] frame_get_unique_values [of name]
    frame_filter_by_value [of name v] frame_get_summary frame_get_sales_by_branch
    frame_get_sales_by_city frame_get_sales_by_product_line
    frame_get_payment_method_distribution frame_get_customer_type_analysis
    frame_get_gender_analysis frame_get_rating_distribution frame_get_monthly_sales_trend
    frame_get_top_products [of n] frame_get_average_basket_size
    frame_get_average_transaction_value frame_get_kpis
  unfolding frame_def by blast

theorem queries_leave_table_unchanged_witness:
  "\<exists>m. load_csv py_float
          (Some [''Branch,Total,Quantity,Rating'', ''A,5,1,7'', ''B,3,1,8'', ''A,2,1,9''])
          init_model = Inr m \<and>
       fst (get_sales_by_branch m) = Inr (StrCol [''A'', ''B''], [7, 3]) \<and>
       snd (get_sales_by_branch m) = m \<and>
       snd (filter_by_value ''Branch'' (S ''A'') m) = m \<and>
       snd (get_top_products 5 m) = m \<and>
       snd (get_kpis m) = m"
proof -
  let ?l = "''Branch,Total,Quantity,Rating''"
  let ?ls = "[''A,5,1,7'', ''B,3,1,8'', ''A,2,1,9'']"
  have hs: "split_line ?l = [''Branch'', ''Total'', ''Quantity'', ''Rating'']" by code_simp
  have d: "distinct (split_line ?l)" unfolding hs by simp
  from load_csv_ok [OF refl d, of py_float ?ls]
  obtain m where m: "load_csv py_float (Some (?l # ?ls)) init_model = Inr m"
    by blast
  have "on_file (?l # ?ls) get_sales_by_branch = Inr (StrCol [''A'', ''B''], [7, 3])"
    by code_simp
  then have sb: "fst (get_sales_by_branch m) = Inr (StrCol [''A'', ''B''], [7, 3])"
    by (simp add: on_file_loaded [OF m])
  from queries_leave_table_unchanged [of "''Branch''" m "S ''A''" 5] m sb
  show ?thesis by blast
qed

lemma rating_edges:
  "np_arange 4.0 10.5 0.5 = [4, 4.5, 5, 5.5, 6, 6.5, 7, 7.5, 8, 8.5, 9, 9.5, 10]"
  by code_simp

lemma upt_12: "[0..<12] = [0, 1, 2, 3, 4, 5, 6, 7, 8, 9, 10, 11]"
  by code_simp

lemma upt_13: "[0..<13] = [0, 1, 2, 3, 4, 5, 6, 7, 8, 9, 10, 11, 12]"
  by code_simp

text \<open>
  Claim C2, as amended. The rating distribution has the thirteen edges 4.0, 4.5, ..., 10.0
  and twelve bins. Bin \<open>i\<close> counts the ratings from its left edge \<open>4 + i / 2\<close> up to but
  not including its right edge, so a rating on an edge such as 5.0 falls in the bin that
  starts there; the last bin alone also counts its right edge, so a rating of exactly 10.0
  falls in the bin from 9.5 to 10.0. A rating below 4.0 or above 10.0 is counted in no bin.
\<close>

theorem rating_bins:
  assumes "fst (get_column ''Rating'' m) = Inr (NumCol rs)"
  shows "fst (get_rating_distribution m) =
           Inr (map (\<lambda>i. 4 + real i / 2) [0..<13],
                map (\<lambda>i. length (filter (\<lambda>x. 4 + real i / 2 \<le> x \<and>
                                    (if i = 11 then x \<le> 10 else x < 4 + real (Suc i) / 2)) rs))
                  [0..<12])"
proof -
  have "fst (get_rating_distribution m) =
          Inr (np_arange 4.0 10.5 0.5, histogram rs (np_arange 4.0 10.5 0.5))"
    using assms unfolding get_rating_distribution_def
    by (simp add: fst_bnd frame_get_column frame_lift Let_def np_histogram_def)
  then show ?thesis
    unfolding rating_edges upt_12 upt_13 by simp
qed

theorem rating_bins_witness:
  "\<exists>m. load_csv py_float (Some [''Rating'', ''5'', ''3.9'', ''9.99'', ''10.5'', ''4'']) init_model =
          Inr m \<and>
       fst (get_column ''Rating'' m) = Inr (NumCol [5, 3.9, 9.99, 10.5, 4]) \<and>
       fst (get_rating_distribution m) =
         Inr ([4, 4.5, 5, 5.5, 6, 6.5, 7, 7.5, 8, 8.5, 9, 9.5, 10],
              [1, 0, 1, 0, 0, 0, 0, 0, 0, 0, 0, 1])"
proof -
  let ?l = "''Rating''"
  let ?ls = "[''5'', ''3.9'', ''9.99'', ''10.5'', ''4'']"
  have d: "distinct (split_line ?l)" by code_simp
  from load_csv_ok [OF refl d, of py_float ?ls]
  obtain m where m: "load_csv py_float (Some (?l # ?ls)) init_model = Inr m"
    by blast
  have "on_file (?l # ?ls) (get_column ''Rating'') = Inr (NumCol [5, 3.9, 9.99, 10.5, 4])"
    by code_simp
  then have c: "fst (get_column ''Rating'' m) = Inr (NumCol [5, 3.9, 9.99, 10.5, 4])"
    by (simp only: on_file_loaded [OF m])
  have e: "fst (get_rating_distribution m) =
         Inr ([4, 4.5, 5, 5.5, 6, 6.5, 7, 7.5, 8, 8.5, 9, 9.5, 10],
              [1, 0, 1, 0, 0, 0, 0, 0, 0, 0, 0, 1])"
    unfolding rating_bins [OF c] upt_12 upt_13 by simp
  show ?thesis
    by (rule exI [of _ m]) (intro conjI m c e)
qed

text \<open>
  Claim C2 as stated fails: a rating of exactly 10.0 is outside \<open>[4.0, 10.0)\<close>, yet it
  is counted, in the last bin.
\<close>

theorem rating_ten_is_counted:
  "on_file [''Rating'', ''10''] get_rating_distribution =
     Inr ([4, 4.5, 5, 5.5, 6, 6.5, 7, 7.5, 8, 8.5, 9, 9.5, 10],
          [0, 0, 0, 0, 0, 0, 0, 0, 0, 0, 0, 1])"
  by code_simp

section \<open>The ranking of product lines\<close>















text \<open>
  A negative \<open>n\<close> is a slice from the end: with three product lines, \<open>n = -1\<close> returns
  two pairs.
\<close>

lemma top_products_negative_n:
  "on_file [''Product line,Total'', ''Food,10'', ''Health,7'', ''Toys,3'']
     (get_top_products (- 1)) = Inr (StrCol [''Food'', ''Health''], [10, 7])"
  by code_simp

section \<open>The monthly trend\<close>

lemma add_to_month_keys: "map fst (add_to_month ms month x) = map fst ms"
  by (induction ms) (auto simp: add_to_month_def)

lemma add_to_month_key_set: "fst ` set (add_to_month ms month x) = fst ` set ms"
  using add_to_month_keys [of ms month x] by (metis list.set_map)

lemma trend_row_keys:
  "set (map fst ms) \<subseteq> set (map fst (trend_row totals i date ms))"
  by (auto simp: trend_row_def add_to_month_key_set Let_def
      split: cell.splits list.splits column.splits)

lemma trend_row_new_key:
  "py_split CHR ''/'' s = month # rest \<Longrightarrow>
   month \<in> set (map fst (trend_row totals i (S s) ms))"
  by (auto simp: trend_row_def add_to_month_key_set Let_def split: column.splits)

lemma trend_rows_keep_keys:
  "k \<in> set (map fst ms) \<Longrightarrow> k \<in> set (map fst (trend_rows totals ps ms))"
proof (induction ps arbitrary: ms)
  case Nil
  then show ?case by simp
next
  case (Cons p ps)
  obtain i date where p: "p = (i, date)" by (cases p)
  from Cons.prems trend_row_keys [of ms totals i date]
  have "k \<in> set (map fst (trend_row totals i date ms))" by blast
  from Cons.IH [OF this] show ?case by (simp add: p)
qed

lemma trend_rows_keys:
  "(i, S s) \<in> set ps \<Longrightarrow> py_split CHR ''/'' s = month # rest \<Longrightarrow>
   month \<in> set (map fst (trend_rows totals ps ms))"
proof (induction ps arbitrary: ms)
  case Nil
  then show ?case by simp
next
  case (Cons p ps)
  obtain j date where p: "p = (j, date)" by (cases p)
  show ?case
  proof (cases "p = (i, S s)")
    case True
    then have "month \<in> set (map fst (trend_row totals j date ms))"
      using trend_row_new_key [OF Cons.prems(2)] p by simp
    from trend_rows_keep_keys [OF this] show ?thesis by (simp add: p)
  next
    case False
    with Cons.prems have "(i, S s) \<in> set ps" by simp
    from Cons.IH [OF this Cons.prems(2)] show ?thesis by (simp add: p)
  qed
qed

text \<open>
  Claim C3: the code does not do what the claim says. Whenever the Date column holds a
  value whose text before the first slash is not an integer, the month still becomes a key
  of \<open>monthly_sales\<close> inside the \<^verbatim>\<open>try\<close>, and \<^verbatim>\<open>int\<close> is then applied to it by the
  sort, outside the \<^verbatim>\<open>try\<close>: the whole query raises \<^verbatim>\<open>ValueError\<close> instead of skipping
  the row.
\<close>

theorem trend_raises_on_bad_month:
  assumes dt: "data m ''Date'' = Some (StrCol ds)" and d: "d \<in> set ds"
    and tok: "py_split CHR ''/'' d = month # rest" and bad: "py_int month = None"
  shows "fst (get_monthly_sales_trend m) = Inl ValueError"
proof -
  let ?totals = "case data m ''Total'' of None \<Rightarrow> NumCol [] | Some c \<Rightarrow> c"
  let ?ms = "trend_rows ?totals (enumerate 0 (map S ds)) []"
  from d obtain i where i: "i < length ds" "ds ! i = d" by (auto simp: in_set_conv_nth)
  then have "(i, S d) \<in> set (enumerate 0 (map S ds))"
    by (simp add: in_set_enumerate_eq)
  from trend_rows_keys [OF this tok] have "month \<in> set (map fst ?ms)" .
  with bad have "sorted_by_int (map fst ?ms) = Inl ValueError"
    unfolding sorted_by_int_def by auto
  then show ?thesis
    unfolding get_monthly_sales_trend_def
    by (simp add: fst_bnd frame_get_column frame_lift dt cells_def Let_def)
qed

theorem trend_raises_on_bad_month_witness:
  "\<exists>m. load_csv py_float (Some [''Date,Total'', ''1/5/2019,20'', ''n.a.,5'']) init_model = Inr m \<and>
       data m ''Date'' = Some (StrCol [''1/5/2019'', ''n.a.'']) \<and>
       ''n.a.'' \<in> set [''1/5/2019'', ''n.a.''] \<and>
       py_split CHR ''/'' ''n.a.'' = [''n.a.''] \<and>
       py_int ''n.a.'' = None \<and>
       fst (get_monthly_sales_trend m) = Inl ValueError"
proof -
  let ?l = "''Date,Total''"
  let ?ls = "[''1/5/2019,20'', ''n.a.,5'']"
  have d: "distinct (split_line ?l)" by code_simp
  from load_csv_ok [OF refl d, of py_float ?ls]
  obtain m where m: "load_csv py_float (Some (?l # ?ls)) init_model = Inr m"
    by blast
  have "map_sum id (\<lambda>m. data m ''Date'') (load_csv py_float (Some (?l # ?ls)) init_model) =
          Inr (Some (StrCol [''1/5/2019'', ''n.a.'']))"
    by code_simp
  with m have dt: "data m ''Date'' = Some (StrCol [''1/5/2019'', ''n.a.''])" by simp
  have mem: "''n.a.'' \<in> set [''1/5/2019'', ''n.a.'']" by simp
  have tok: "py_split CHR ''/'' ''n.a.'' = [''n.a.'']" by code_simp
  have bad: "py_int ''n.a.'' = None" by code_simp
  note r = trend_raises_on_bad_month [OF dt mem tok bad]
  show ?thesis
    by (rule exI [of _ m]) (intro conjI m dt mem tok bad r)
qed

end
